theory Spec2Isabelle
  imports Complex_Main "HOL-Library.Sublist" "HOL-Library.AList"
begin

text \<open>
  An embedding of the script \<^verbatim>\<open>sdl3-intra-compat.py\<close>, which builds several
  tags of a library, runs the installed tests of each older tag against the shared
  library of the tag under test, and prints the results as tables. Line numbers refer
  to the script. The sections follow the script: the process runner, the comparison
  engine with its two execution loops, the tag pipeline, the child environment, the
  report, \<^verbatim>\<open>main\<close> as a whole, and test discovery. The properties come last.
\<close>

section \<open>Data model of sdl3-intra-compat.py\<close>

text \<open>
  \<^verbatim>\<open>class TestResult(enum.StrEnum)\<close>: the five outcomes, in the order the class lists
  them.
\<close>

datatype TestResult = SUCCESS | FAILED | TIMEOUT | NA | SKIP

text \<open>\<^verbatim>\<open>MAX_TEST_TIME = 60000\<close> (line 18), a Python int.\<close>

definition MAX_TEST_TIME :: int where
  "MAX_TEST_TIME = 60000"

text \<open>
  The exceptions that the modelled part of the script can raise, its own and those of
  the library functions it calls.
\<close>

datatype error =
    KeyError string
  | ValueError
  | UnboundLocalError
  | DuplicateSectionError
  | DuplicateOptionError
  | MissingSectionHeaderError
  | ParsingError
  | InterpolationDepthError
  | InterpolationSyntaxError
  | InterpolationMissingOptionError

text \<open>
  An environment is a Python \<^verbatim>\<open>dict[str, str]\<close>. A version is the tuple
  \<^verbatim>\<open>(major, minor, micro)\<close> of Python ints; a unit-test dictionary is kept as an
  association list, in the insertion order that \<^verbatim>\<open>.items()\<close> iterates.
\<close>

type_synonym env = "string \<rightharpoonup> string"
type_synonym version = "int \<times> int \<times> int"
type_synonym tests = "(string \<times> string list) list"
type_synonym results = "string \<rightharpoonup> TestResult"

text \<open>
  One start of a child process: the arguments that line 191 or line 209 hands to
  \<^verbatim>\<open>run_process_with_timeout\<close>.
\<close>

record call =
  cmd :: "string list"
  timeout :: int
  child_env :: env

text \<open>
  What a child process does is not decided by the script. The comparison engine is
  therefore modelled for an arbitrary outcome function: \<open>rp n c t e\<close> is the value that
  \<^verbatim>\<open>run_process_with_timeout(cmd=c, timeout=t, env=e)\<close> returns for the \<open>n\<close>-th
  child started by the run (counting from 0).
\<close>

type_synonym runner = "nat \<Rightarrow> string list \<Rightarrow> int \<Rightarrow> env \<Rightarrow> TestResult"

subsection \<open>Paths\<close>

text \<open>
  A \<^verbatim>\<open>pathlib.Path\<close> of the POSIX flavour is kept as pathlib keeps it: its root
  (empty, \<^verbatim>\<open>/\<close> or \<^verbatim>\<open>//\<close>) and its list of parts, which starts with the root
  if there is one. The functions follow \<^verbatim>\<open>pathlib.py\<close> of Python 3.11:
  \<^verbatim>\<open>str.split('/')\<close>, \<^verbatim>\<open>_PosixFlavour.splitroot\<close>, \<^verbatim>\<open>parse_parts\<close> for one
  string, \<^verbatim>\<open>join_parsed_parts\<close> behind the operator \<^verbatim>\<open>/\<close>, and \<^verbatim>\<open>__str__\<close>.
  Empty segments and segments \<^verbatim>\<open>.\<close> are dropped, and a string that starts with
  \<^verbatim>\<open>/\<close> replaces the path it is joined to.
\<close>

type_synonym path = "string \<times> string list"

fun split_from :: "string \<Rightarrow> string \<Rightarrow> string list" where
  "split_from cur [] = [cur]"
| "split_from cur (c # cs) =
     (if c = CHR ''/'' then cur # split_from [] cs else split_from (cur @ [c]) cs)"

definition splitroot :: "string \<Rightarrow> string \<times> string" where
  "splitroot part =
     (if prefix ''/'' part then
        (let stripped_part = dropWhile (\<lambda>c. c = CHR ''/'') part
         in if length part - length stripped_part = 2 then (''//'', stripped_part)
            else (''/'', stripped_part))
      else ([], part))"

definition parse_part :: "string \<Rightarrow> path" where
  "parse_part part =
     (if part = [] then ([], [])
      else (let (root, rel) = splitroot part;
                parsed = filter (\<lambda>x. x \<noteq> [] \<and> x \<noteq> ''.'') (split_from [] rel)
            in (root, (if root \<noteq> [] then [root] else []) @ parsed)))"

text \<open>\<^verbatim>\<open>p / key\<close> for a string \<open>key\<close>.\<close>

definition pdiv :: "path \<Rightarrow> string \<Rightarrow> path" where
  "pdiv p key =
     (let (root2, parts2) = parse_part key
      in if root2 \<noteq> [] then (root2, parts2) else (fst p, snd p @ parts2))"

fun join_parts :: "string list \<Rightarrow> string" where
  "join_parts [] = []"
| "join_parts [p] = p"
| "join_parts (p # q # ps) = p @ ''/'' @ join_parts (q # ps)"

definition str_path :: "path \<Rightarrow> string" where
  "str_path p =
     (let s = (if fst p \<noteq> [] then fst p @ join_parts (drop 1 (snd p)) else join_parts (snd p))
      in if s = [] then ''.'' else s)"

section \<open>The process runner (lines 36 to 50)\<close>

text \<open>
  The runner reads two things from outside: the state of the child, through
  \<^verbatim>\<open>child.poll()\<close>, and the wall clock, through \<^verbatim>\<open>time.time()\<close>. A \<open>world\<close>
  lists what these calls are going to return, in the order in which they are made:
  \<open>pending\<close> holds what the operating system reports at each check of the child that
  \<^verbatim>\<open>poll\<close> makes (\<open>None\<close> while it runs, the exit status once it has ended), and
  \<open>clock\<close> holds the readings of \<^verbatim>\<open>time.time()\<close> in seconds, as exact numbers.
  \<^verbatim>\<open>poll\<close> checks the child only while \<^verbatim>\<open>child.returncode\<close> is unset;
  afterwards it returns the stored status. \<^verbatim>\<open>time.sleep(0.01)\<close> reads nothing.
  When a list is used up the model has no answer for the next call and the result is
  \<open>None\<close>.
\<close>

record world =
  pending :: "int option list"
  clock :: "real list"

text \<open>Whether the child is still there when the runner returns.\<close>

datatype child_status = Running | Exited int | Killed

text \<open>
  The loop of lines 40 to 43. The result is the value of \<^verbatim>\<open>child.returncode\<close> when
  the loop is left, with what remains of the two lists.
\<close>

fun wait_loop :: "real \<Rightarrow> int \<Rightarrow> int option list \<Rightarrow> real list \<Rightarrow> (int option \<times> int option list \<times> real list) option" where
  "wait_loop start t [] ck = None"
| "wait_loop start t (Some rc # ps) ck = Some (Some rc, ps, ck)"
| "wait_loop start t (None # ps) [] = None"
| "wait_loop start t (None # ps) (now # ck) =
     (if now > start + real_of_int t then Some (None, ps, ck)
      else wait_loop start t ps ck)"

text \<open>Lines 47 to 50, the classification of an exit status.\<close>

definition classify :: "int \<Rightarrow> TestResult" where
  "classify returncode = (if returncode = 0 then SUCCESS else FAILED)"

text \<open>
  \<^verbatim>\<open>run_process_with_timeout\<close>. The command and the environment go to
  \<^verbatim>\<open>subprocess.Popen\<close>; what the child then does is the world's part.
\<close>

definition run_process_with_timeout :: "string list \<Rightarrow> int \<Rightarrow> env \<Rightarrow> world \<Rightarrow> (TestResult \<times> child_status) option" where
  "run_process_with_timeout command t e w =
     (case clock w of
        [] \<Rightarrow> None
      | start # ck \<Rightarrow>
          (case wait_loop start t (pending w) ck of
             None \<Rightarrow> None
           | Some (Some rc, ps, ck1) \<Rightarrow> Some (classify rc, Exited rc)
           | Some (None, ps, ck1) \<Rightarrow>
               (case ps of
                  [] \<Rightarrow> None
                | None # ps1 \<Rightarrow> Some (TIMEOUT, Killed)
                | Some rc # ps1 \<Rightarrow> Some (classify rc, Exited rc))))"

section \<open>The comparison engine (lines 174 to 212)\<close>

text \<open>Python's \<^verbatim>\<open>a in b\<close> on strings: \<open>a\<close> occurs in \<open>b\<close> as a contiguous substring.\<close>

definition str_in :: "string \<Rightarrow> string \<Rightarrow> bool" where
  "str_in a b = sublist a b"

text \<open>
  Truth value of an optional command-line string: \<^verbatim>\<open>None\<close> and the empty string are
  both false.
\<close>

fun truthy :: "string option \<Rightarrow> bool" where
  "truthy None = False"
| "truthy (Some s) = (s \<noteq> [])"

text \<open>
  \<^verbatim>\<open>args.filter_tests and args.filter_tests not in test_name\<close> (lines 187 and 204).
\<close>

fun filtered_out :: "string option \<Rightarrow> string \<Rightarrow> bool" where
  "filtered_out None name = False"
| "filtered_out (Some f) name = (f \<noteq> [] \<and> \<not> str_in f name)"

text \<open>
  The right-hand side of lines 194 and 212:
  \<^verbatim>\<open>success and test_result == TestResult.SUCCESS and test_result not in (TestResult.NA, TestResult.SKIP)\<close>.
\<close>

definition accumulate :: "bool \<Rightarrow> TestResult \<Rightarrow> bool" where
  "accumulate success r = (success \<and> r = SUCCESS \<and> r \<notin> {NA, SKIP})"

text \<open>Line 242: \<^verbatim>\<open>return 0 if success else 1\<close>.\<close>

definition exit_code :: "bool \<Rightarrow> int" where
  "exit_code success = (if success then 0 else 1)"

text \<open>
  The local state of \<^verbatim>\<open>main\<close> that the two execution loops change: the flag
  \<^verbatim>\<open>success\<close>, the variable \<^verbatim>\<open>test_result\<close> (unbound until its first
  assignment, and still holding its last value after a loop ends), and the list of
  child processes started so far.
\<close>

record run_state =
  success :: bool
  test_result :: "TestResult option"
  calls :: "call list"

text \<open>
  The call of line 191 and of line 209: the child is started, which is recorded, and
  its outcome is returned.
\<close>

definition spawn :: "runner \<Rightarrow> string list \<Rightarrow> int \<Rightarrow> env \<Rightarrow> run_state \<Rightarrow> TestResult \<times> run_state" where
  "spawn rp c t e st =
     (rp (length (calls st)) c t e,
      st\<lparr>calls := calls st @ [\<lparr>cmd = c, timeout = t, child_env = e\<rparr>]\<rparr>)"

text \<open>
  Lines 185 to 194, the loop over \<^verbatim>\<open>TAG_TESTS[other_tag].items()\<close>. The second
  argument of the result is \<^verbatim>\<open>other_tag_test_results\<close>.
\<close>

fun run_unit_tests :: "runner \<Rightarrow> string option \<Rightarrow> env \<Rightarrow> tests \<Rightarrow> results \<Rightarrow> run_state \<Rightarrow> results \<times> run_state" where
  "run_unit_tests rp filter_tests e [] res st = (res, st)"
| "run_unit_tests rp filter_tests e ((test_name, test_command) # rest) res st =
     (let (r, st1) =
            (if filtered_out filter_tests test_name then (SKIP, st)
             else spawn rp test_command MAX_TEST_TIME e st);
          res1 = res(test_name \<mapsto> r);
          st2 = st1\<lparr>test_result := Some r, success := accumulate (success st1) r\<rparr>
      in run_unit_tests rp filter_tests e rest res1 st2)"

text \<open>
  Lines 202 to 211, the loop over \<^verbatim>\<open>TAG_AUTOMATION_CASES[other_tag]\<close>; the
  statement of line 212 is outside this loop and is part of \<open>run_testautomation\<close>.
\<close>

fun run_automation_cases :: "runner \<Rightarrow> string option \<Rightarrow> env \<Rightarrow> string list \<Rightarrow> string list \<Rightarrow> results \<Rightarrow> run_state \<Rightarrow> results \<times> run_state" where
  "run_automation_cases rp filter_testautomation e testautomation_cmd [] res st = (res, st)"
| "run_automation_cases rp filter_testautomation e testautomation_cmd (testautomation_case # rest) res st =
     (let (r, st1) =
            (if filtered_out filter_testautomation testautomation_case then (SKIP, st)
             else spawn rp (testautomation_cmd @ [''--filter'', testautomation_case]) MAX_TEST_TIME e st);
          res1 = res(testautomation_case \<mapsto> r);
          st2 = st1\<lparr>test_result := Some r\<rparr>
      in run_automation_cases rp filter_testautomation e testautomation_cmd rest res1 st2)"

text \<open>
  The command-line arguments that the modelled part of \<^verbatim>\<open>main\<close> reads, after
  lines 100 and 101 have been applied by \<open>effective_args\<close>.
\<close>

record args =
  other_tags :: "string list"
  dut_tag :: string
  filter_tests :: "string option"
  filter_testautomation :: "string option"
  testautomation :: bool

definition effective_args :: "args \<Rightarrow> args" where
  "effective_args a =
     (if truthy (filter_testautomation a) then a\<lparr>testautomation := True\<rparr> else a)"

text \<open>
  Lines 199 to 212. A statement that raises returns \<open>Inl\<close> with the exception and the
  state reached when it was raised.
\<close>

definition run_testautomation :: "runner \<Rightarrow> args \<Rightarrow> env \<Rightarrow> tests \<Rightarrow> string list option \<Rightarrow> run_state \<Rightarrow> string \<Rightarrow> (error \<times> run_state) + (results \<times> run_state)" where
  "run_testautomation rp a e tag_tests tag_cases st other_tag =
     (if testautomation a then
        (case map_of tag_tests ''testautomation'' of
           None \<Rightarrow> Inr (Map.empty, st)
         | Some testautomation_cmd \<Rightarrow>
             (case tag_cases of
                None \<Rightarrow> Inl (KeyError other_tag, st)
              | Some cases \<Rightarrow>
                  (let (res, st1) =
                         run_automation_cases rp (filter_testautomation a) e testautomation_cmd cases Map.empty st
                   in case test_result st1 of
                        None \<Rightarrow> Inl (UnboundLocalError, st1)
                      | Some r \<Rightarrow> Inr (res, st1\<lparr>success := accumulate (success st1) r\<rparr>))))
      else Inr (Map.empty, st))"

text \<open>
  Python compares the version tuples lexicographically (line 176).
\<close>

fun version_le :: "version \<Rightarrow> version \<Rightarrow> bool" where
  "version_le (a1, a2, a3) (b1, b2, b3) =
     (a1 < b1 \<or> (a1 = b1 \<and> (a2 < b2 \<or> (a2 = b2 \<and> a3 \<le> b3))))"

text \<open>
  The dictionaries and sets that the tag pipeline (lines 117 to 161) fills and the
  later stages read.
\<close>

record tag_tables =
  TAG_PREF :: "string \<rightharpoonup> path"
  TAG_VERSION :: "string \<rightharpoonup> version"
  TAG_TESTS :: "string \<rightharpoonup> tests"
  TAG_AUTOMATION_CASES :: "string \<rightharpoonup> string list"
  all_test_names :: "string list"
  all_automation_cases :: "string list"

text \<open>
  The two result dictionaries of lines 168 and 169 together with the loop state.
\<close>

record engine_state =
  run :: run_state
  TEST_RESULTS :: "string \<rightharpoonup> results"
  TESTAUTOMATION_RESULTS :: "string \<rightharpoonup> results"

text \<open>
  The body of the loop of line 175 for one \<^verbatim>\<open>other_tag\<close> (lines 176 to 212).
  A look-up of a missing dictionary key raises \<^verbatim>\<open>KeyError\<close>.
\<close>

definition compare_tag :: "runner \<Rightarrow> args \<Rightarrow> env \<Rightarrow> tag_tables \<Rightarrow> engine_state \<Rightarrow> string \<Rightarrow> (error \<times> engine_state) + engine_state" where
  "compare_tag rp a e T es other_tag =
     (case TAG_VERSION T other_tag of
        None \<Rightarrow> Inl (KeyError other_tag, es)
      | Some v_other \<Rightarrow>
     (case TAG_VERSION T (dut_tag a) of
        None \<Rightarrow> Inl (KeyError (dut_tag a), es)
      | Some v_dut \<Rightarrow>
         if \<not> version_le v_other v_dut then
           Inr (es\<lparr>run := (run es)\<lparr>success := False\<rparr>\<rparr>)
         else
           (let es1 = es\<lparr>TEST_RESULTS := (TEST_RESULTS es)(other_tag \<mapsto> Map.empty)\<rparr>
            in case TAG_TESTS T other_tag of
                 None \<Rightarrow> Inl (KeyError other_tag, es1)
               | Some tag_tests \<Rightarrow>
                  (let (res, st1) =
                         run_unit_tests rp (filter_tests a) e tag_tests Map.empty (run es1);
                       es2 = es1\<lparr>run := st1,
                                 TEST_RESULTS := (TEST_RESULTS es1)(other_tag \<mapsto> res),
                                 TESTAUTOMATION_RESULTS := (TESTAUTOMATION_RESULTS es1)(other_tag \<mapsto> Map.empty)\<rparr>
                   in case run_testautomation rp a e tag_tests (TAG_AUTOMATION_CASES T other_tag) st1 other_tag of
                        Inl (err, st2) \<Rightarrow> Inl (err, es2\<lparr>run := st2\<rparr>)
                      | Inr (ares, st2) \<Rightarrow>
                          Inr (es2\<lparr>run := st2,
                                  TESTAUTOMATION_RESULTS := (TESTAUTOMATION_RESULTS es2)(other_tag \<mapsto> ares)\<rparr>)))))"

text \<open>The loop of line 175 over \<^verbatim>\<open>args.other_tags\<close>; an exception ends it.\<close>

fun compare :: "runner \<Rightarrow> args \<Rightarrow> env \<Rightarrow> tag_tables \<Rightarrow> engine_state \<Rightarrow> string list \<Rightarrow> (error \<times> engine_state) + engine_state" where
  "compare rp a e T es [] = Inr es"
| "compare rp a e T es (other_tag # rest) =
     (case compare_tag rp a e T es other_tag of
        Inl x \<Rightarrow> Inl x
      | Inr es1 \<Rightarrow> compare rp a e T es1 rest)"

section \<open>The tag pipeline, as far as it fills the tables (lines 117 to 161)\<close>

text \<open>
  Cloning, configuring, building and reading the version header act on the file
  system and on external tools. For each tag, \<open>tag_data\<close> holds what they leave for
  the script to read when none of them fails: the parsed version tuple, the
  dictionary returned by \<^verbatim>\<open>get_unit_tests\<close> and the list returned by
  \<^verbatim>\<open>get_automation_cases\<close>.
\<close>

record tag_data =
  d_version :: version
  d_tests :: tests
  d_cases :: "string list"

text \<open>
  \<^verbatim>\<open>s.update(xs)\<close> on a Python set, kept as a list without repetitions. The order in
  which Python iterates a set is not specified; the list order stands for one such
  order.
\<close>

definition set_update :: "string list \<Rightarrow> string list \<Rightarrow> string list" where
  "set_update s xs = s @ filter (\<lambda>x. x \<notin> set s) (remdups xs)"

text \<open>
  Lines 157 and 158: the list comprehension is applied only when the filter is true
  as a condition.
\<close>

fun keep_cases :: "string option \<Rightarrow> string list \<Rightarrow> string list" where
  "keep_cases None cs = cs"
| "keep_cases (Some f) cs = (if f = [] then cs else filter (\<lambda>t. str_in f t) cs)"

definition empty_tables :: tag_tables where
  "empty_tables =
     \<lparr>TAG_PREF = Map.empty, TAG_VERSION = Map.empty, TAG_TESTS = Map.empty,
      TAG_AUTOMATION_CASES = Map.empty, all_test_names = [], all_automation_cases = []\<rparr>"

text \<open>
  One iteration of the loop of line 117. \<^verbatim>\<open>TAG_SRC\<close> and \<^verbatim>\<open>TAG_BLD\<close> are
  written but never read afterwards and are left out.
\<close>

definition pipeline_tag :: "path \<Rightarrow> args \<Rightarrow> (string \<Rightarrow> tag_data) \<Rightarrow> tag_tables \<Rightarrow> string \<Rightarrow> tag_tables" where
  "pipeline_tag cwd a disk T tag =
     (let tag_src = pdiv cwd tag;
          tag_pref = pdiv tag_src ''prefix'';
          tag_tests = d_tests (disk tag);
          automation_cases = keep_cases (filter_testautomation a) (d_cases (disk tag))
      in T\<lparr>TAG_PREF := (TAG_PREF T)(tag \<mapsto> tag_pref),
            TAG_VERSION := (TAG_VERSION T)(tag \<mapsto> d_version (disk tag)),
            TAG_TESTS := (TAG_TESTS T)(tag \<mapsto> tag_tests),
            TAG_AUTOMATION_CASES := (TAG_AUTOMATION_CASES T)(tag \<mapsto> automation_cases),
            all_test_names := set_update (all_test_names T) (map fst tag_tests),
            all_automation_cases := set_update (all_automation_cases T) automation_cases\<rparr>)"

definition pipeline :: "path \<Rightarrow> args \<Rightarrow> (string \<Rightarrow> tag_data) \<Rightarrow> tag_tables" where
  "pipeline cwd a disk = foldl (pipeline_tag cwd a disk) empty_tables (other_tags a @ [dut_tag a])"

section \<open>The child environment (lines 163 to 166)\<close>

text \<open>
  Dictionaries are objects: \<^verbatim>\<open>os.environ\<close> is one, and \<^verbatim>\<open>dict(os.environ)\<close>
  makes a second one with the same items. The store maps an address (an index) to
  the dictionary kept there.
\<close>

type_synonym heap = "env list"

definition dict_copy :: "heap \<Rightarrow> nat \<Rightarrow> heap \<times> nat" where
  "dict_copy h src = (h @ [h ! src], length h)"

definition dict_set :: "heap \<Rightarrow> nat \<Rightarrow> string \<Rightarrow> string \<Rightarrow> heap" where
  "dict_set h d k v = h[d := (h ! d)(k \<mapsto> v)]"

definition dict_get :: "heap \<Rightarrow> nat \<Rightarrow> string \<Rightarrow> error + string" where
  "dict_get h d k = (case (h ! d) k of None \<Rightarrow> Inl (KeyError k) | Some v \<Rightarrow> Inr v)"

text \<open>
  Lines 163 to 166; \<open>environ\<close> is the address of \<^verbatim>\<open>os.environ\<close> and \<open>pathsep\<close> is
  \<^verbatim>\<open>os.path.pathsep\<close>, which depends on the platform. The result is the new store
  and the address bound to \<^verbatim>\<open>child_environ\<close>.
\<close>

definition build_child_environ :: "heap \<Rightarrow> nat \<Rightarrow> string \<Rightarrow> tag_tables \<Rightarrow> args \<Rightarrow> (error \<times> heap) + (heap \<times> nat)" where
  "build_child_environ h environ pathsep T a =
     (let (h1, child_environ) = dict_copy h environ
      in case TAG_PREF T (dut_tag a) of
           None \<Rightarrow> Inl (KeyError (dut_tag a), h1)
         | Some pref \<Rightarrow>
            (let h2 = dict_set h1 child_environ ''DYLD_LIBRARY_PATH'' (str_path (pdiv pref ''lib''));
                 h3 = dict_set h2 child_environ ''LD_LIBRARY_PATH'' (str_path (pdiv pref ''lib''))
             in case dict_get h3 child_environ ''PATH'' of
                  Inl err \<Rightarrow> Inl (err, h3)
                | Inr old_path \<Rightarrow>
                    Inr (dict_set h3 child_environ ''PATH'' (str_path (pdiv pref ''bin'') @ pathsep @ old_path),
                         child_environ)))"

section \<open>The report (lines 214 to 240)\<close>

text \<open>
  The printed tables are kept by content, one value per printed line, without the
  padding and centring of the cells.
\<close>

datatype out_line =
    Blank
  | Heading string
  | Columns "string list"
  | Versions "version list"
  | Rule
  | Row string "TestResult list"
  | NoTests

text \<open>
  The cells of one row (lines 225 and 238):
  \<^verbatim>\<open>RESULTS[other_tag].get(test_name, TestResult.NA) for other_tag in args.other_tags\<close>.
\<close>

fun cells :: "(string \<rightharpoonup> results) \<Rightarrow> string list \<Rightarrow> string \<Rightarrow> error + TestResult list" where
  "cells R [] test_name = Inr []"
| "cells R (other_tag # rest) test_name =
     (case R other_tag of
        None \<Rightarrow> Inl (KeyError other_tag)
      | Some res \<Rightarrow>
          (case cells R rest test_name of
             Inl err \<Rightarrow> Inl err
           | Inr cs \<Rightarrow> Inr ((case res test_name of None \<Rightarrow> NA | Some r \<Rightarrow> r) # cs)))"

text \<open>The rows printed until one raises.\<close>

fun print_rows :: "(string \<rightharpoonup> results) \<Rightarrow> string list \<Rightarrow> string list \<Rightarrow> out_line list \<times> error option" where
  "print_rows R tags [] = ([], None)"
| "print_rows R tags (test_name # rest) =
     (case cells R tags test_name of
        Inl err \<Rightarrow> ([], Some err)
      | Inr cs \<Rightarrow> (let (ls, err) = print_rows R tags rest in (Row test_name cs # ls, err)))"

fun versions_of :: "tag_tables \<Rightarrow> string list \<Rightarrow> error + version list" where
  "versions_of T [] = Inr []"
| "versions_of T (other_tag # rest) =
     (case TAG_VERSION T other_tag of
        None \<Rightarrow> Inl (KeyError other_tag)
      | Some v \<Rightarrow> (case versions_of T rest of Inl err \<Rightarrow> Inl err | Inr vs \<Rightarrow> Inr (v # vs)))"

definition print_table :: "string \<Rightarrow> (string \<rightharpoonup> results) \<Rightarrow> tag_tables \<Rightarrow> string list \<Rightarrow> string list \<Rightarrow> out_line list \<times> error option" where
  "print_table heading R T tags names =
     (case versions_of T tags of
        Inl err \<Rightarrow> ([Blank, Heading heading], Some err)
      | Inr vs \<Rightarrow>
          (let (rows, err) = print_rows R tags names
           in ([Blank, Heading heading, Columns tags, Versions vs, Rule] @ rows, err)))"

text \<open>
  Lines 214 to 240. \<^verbatim>\<open>max\<close> of an empty sequence (line 215) raises
  \<^verbatim>\<open>ValueError\<close>.
\<close>

definition report :: "args \<Rightarrow> tag_tables \<Rightarrow> engine_state \<Rightarrow> out_line list \<times> error option" where
  "report a T es =
     (let (out1, err1) =
            (if testautomation a then
               (if all_automation_cases T = [] then ([], Some ValueError)
                else print_table ''Testautomation results:'' (TESTAUTOMATION_RESULTS es) T
                       (other_tags a) (all_automation_cases T))
             else ([], None))
      in case err1 of
           Some err \<Rightarrow> (out1, Some err)
         | None \<Rightarrow>
            (if all_test_names T \<noteq> [] then
               (let (out2, err2) =
                      print_table ''Test results:'' (TEST_RESULTS es) T (other_tags a) (all_test_names T)
                in (out1 @ out2, err2))
             else (out1 @ [NoTests], None)))"

section \<open>The whole of main\<close>

text \<open>
  What a run leaves behind: the exception that ended it or the value that
  \<^verbatim>\<open>main\<close> returned, the child processes it started, the lines of the report it
  printed, and the store.
\<close>

record outcome =
  status :: "error + int"
  started :: "call list"
  printed :: "out_line list"
  final_heap :: heap

definition initial_state :: engine_state where
  "initial_state =
     \<lparr>run = \<lparr>success = True, test_result = None, calls = []\<rparr>,
      TEST_RESULTS = Map.empty, TESTAUTOMATION_RESULTS = Map.empty\<rparr>"

definition main :: "runner \<Rightarrow> args \<Rightarrow> path \<Rightarrow> (string \<Rightarrow> tag_data) \<Rightarrow> string \<Rightarrow> heap \<Rightarrow> nat \<Rightarrow> outcome" where
  "main rp parsed_args cwd disk pathsep h environ =
     (let a = effective_args parsed_args;
          T = pipeline cwd a disk
      in case build_child_environ h environ pathsep T a of
           Inl (err, h1) \<Rightarrow> \<lparr>status = Inl err, started = [], printed = [], final_heap = h1\<rparr>
         | Inr (h1, child_environ) \<Rightarrow>
            (case compare rp a (h1 ! child_environ) T initial_state (other_tags a) of
               Inl (err, es) \<Rightarrow>
                 \<lparr>status = Inl err, started = calls (run es), printed = [], final_heap = h1\<rparr>
             | Inr es \<Rightarrow>
                 (let (out, err) = report a T es
                  in \<lparr>status = (case err of Some x \<Rightarrow> Inl x | None \<Rightarrow> Inr (exit_code (success (run es)))),
                      started = calls (run es), printed = out, final_heap = h1\<rparr>)))"

section \<open>Test discovery (lines 68 to 83)\<close>

text \<open>
  Both discovery functions consist of calls into Python's standard library:
  \<^verbatim>\<open>re.finditer\<close>, \<^verbatim>\<open>glob.glob\<close>, \<^verbatim>\<open>configparser.ConfigParser\<close>,
  \<^verbatim>\<open>shlex.split\<close> and \<^verbatim>\<open>Path.stem\<close>. These are embedded from the sources of
  the library of Python 3.11, the first version that has \<^verbatim>\<open>enum.StrEnum\<close>, in
  the configuration in which the script calls them. Text is taken to be ASCII.
\<close>

subsection \<open>Regular expressions\<close>

text \<open>
  The constructs that occur in the pattern of line 81 and in the two patterns of
  \<^verbatim>\<open>configparser\<close>: a literal, a greedy and a lazy repetition of a character
  class with a least count, an optional part, an alternative, a sequence, a capturing
  group and \<^verbatim>\<open>$\<close>.
\<close>

datatype re =
    Chars string
  | Rep nat "char \<Rightarrow> bool"
  | RepLazy nat "char \<Rightarrow> bool"
  | Opt re
  | Alt re re
  | Cat re re
  | Grp re
  | Eol

text \<open>
  \<open>re_match r inp\<close> lists the ways in which \<open>r\<close> matches a prefix of \<open>inp\<close>, each
  with the text of its groups and the input left over, in the order in which a
  backtracking matcher tries them: a greedy repetition tries the longest run first, a
  lazy one the shortest, an optional part is tried before it is left out, and the left
  alternative comes before the right one.
\<close>

fun re_match :: "re \<Rightarrow> string \<Rightarrow> (string list \<times> string) list" where
  "re_match (Chars s) inp = (if prefix s inp then [([], drop (length s) inp)] else [])"
| "re_match (Rep n cls) inp =
     map (\<lambda>j. ([], drop j inp)) (rev [n ..< Suc (length (takeWhile cls inp))])"
| "re_match (RepLazy n cls) inp =
     map (\<lambda>j. ([], drop j inp)) [n ..< Suc (length (takeWhile cls inp))]"
| "re_match (Opt r) inp = re_match r inp @ [([], inp)]"
| "re_match (Alt r1 r2) inp = re_match r1 inp @ re_match r2 inp"
| "re_match (Cat r1 r2) inp =
     concat (map (\<lambda>(g1, rest). map (\<lambda>(g2, rest2). (g1 @ g2, rest2)) (re_match r2 rest))
                 (re_match r1 inp))"
| "re_match (Grp r) inp =
     map (\<lambda>(g, rest). (take (length inp - length rest) inp # g, rest)) (re_match r inp)"
| "re_match Eol inp = (if inp = [] \<or> inp = [CHR 0x0A] then [([], inp)] else [])"

text \<open>\<^verbatim>\<open>pattern.match(inp)\<close>: the groups of the first way, if there is one.\<close>

definition match :: "re \<Rightarrow> string \<Rightarrow> string list option" where
  "match r inp = (case re_match r inp of [] \<Rightarrow> None | (g, rest) # _ \<Rightarrow> Some g)"

text \<open>
  \<^verbatim>\<open>re.finditer\<close>: the matches from left to right, without overlap. The search
  goes on where the last match ended, and one character further on after an empty
  match or where nothing matches.
\<close>

function finditer :: "re \<Rightarrow> string \<Rightarrow> string list list" where
  "finditer r inp =
     (case re_match r inp of
        (g, rest) # _ \<Rightarrow>
          (if length rest < length inp then g # finditer r rest
           else g # (case inp of [] \<Rightarrow> [] | _ # inp1 \<Rightarrow> finditer r inp1))
      | [] \<Rightarrow> (case inp of [] \<Rightarrow> [] | _ # inp1 \<Rightarrow> finditer r inp1))"
  by pat_completeness auto
termination
  by (relation "measure (\<lambda>(r, inp). length inp)") auto

fun cat_list :: "re list \<Rightarrow> re" where
  "cat_list [] = Chars []"
| "cat_list [r] = r"
| "cat_list (r # rs) = Cat r (cat_list rs)"

text \<open>
  The character classes: \<^verbatim>\<open>\s\<close> (also the characters that \<^verbatim>\<open>str.strip\<close>
  removes), \<^verbatim>\<open>.\<close>, \<^verbatim>\<open>[a-zA-Z0-9_]\<close> and \<^verbatim>\<open>[a-zA-Z0-9_.-]\<close>.
\<close>

definition is_space :: "char \<Rightarrow> bool" where
  "is_space c = (let n = (of_char c :: nat) in (9 \<le> n \<and> n \<le> 13) \<or> (28 \<le> n \<and> n \<le> 32))"

definition not_newline :: "char \<Rightarrow> bool" where
  "not_newline c = (c \<noteq> CHR 0x0A)"

definition is_alnum :: "char \<Rightarrow> bool" where
  "is_alnum c = (let n = (of_char c :: nat) in
     (97 \<le> n \<and> n \<le> 122) \<or> (65 \<le> n \<and> n \<le> 90) \<or> (48 \<le> n \<and> n \<le> 57))"

definition is_ident :: "char \<Rightarrow> bool" where
  "is_ident c = (is_alnum c \<or> c = CHR ''_'')"

definition is_case_name :: "char \<Rightarrow> bool" where
  "is_case_name c = (is_alnum c \<or> c = CHR ''_'' \<or> c = CHR ''.'' \<or> c = CHR ''-'')"

subsection \<open>Automation cases (lines 77 to 83)\<close>

text \<open>
  The pattern of line 81,
  \<^verbatim>\<open>static\s*(?:const)?\s*SDLTest_TestCaseReference\s*[a-zA-Z0-9_]+\s*=\s*\{\s*[a-zA-Z0-9_]+\s*,\s*"([a-zA-Z0-9_.-]+)"\s*,\<close>.
  The flag \<^verbatim>\<open>re.M\<close> changes \<^verbatim>\<open>^\<close> and \<^verbatim>\<open>$\<close> only, which the pattern does
  not contain.
\<close>

definition case_reference_pattern :: re where
  "case_reference_pattern = cat_list
     [Chars ''static'', Rep 0 is_space, Opt (Chars ''const''), Rep 0 is_space,
      Chars ''SDLTest_TestCaseReference'', Rep 0 is_space, Rep 1 is_ident, Rep 0 is_space,
      Chars ''='', Rep 0 is_space, Chars ''{'', Rep 0 is_space, Rep 1 is_ident, Rep 0 is_space,
      Chars '','', Rep 0 is_space, Chars [CHR 0x22], Grp (Rep 1 is_case_name), Chars [CHR 0x22],
      Rep 0 is_space, Chars '','']"

text \<open>
  Whether a file name of the directory \<^verbatim>\<open>test\<close> matches
  \<^verbatim>\<open>testautomation*.c\<close>.
\<close>

definition glob_match :: "string \<Rightarrow> bool" where
  "glob_match name = (prefix ''testautomation'' name \<and> suffix ''.c'' (drop 14 name))"

text \<open>
  \<^verbatim>\<open>get_automation_cases\<close>. The argument lists the regular files of the directory
  \<^verbatim>\<open>test\<close> of the source tree, each name with the text of the file, in the order in
  which \<^verbatim>\<open>glob.glob\<close> visits them. \<^verbatim>\<open>m[1]\<close> is the first group of a match.
\<close>

definition get_automation_cases :: "(string \<times> string) list \<Rightarrow> string list" where
  "get_automation_cases test_dir =
     concat (map (\<lambda>(test_path, text). concat (map (take 1) (finditer case_reference_pattern text)))
                 (filter (\<lambda>(test_path, text). glob_match test_path) test_dir))"

subsection \<open>shlex.split\<close>

text \<open>
  \<^verbatim>\<open>shlex.split(s)\<close> reads tokens with \<^verbatim>\<open>shlex.read_token\<close> in POSIX mode, with
  \<^verbatim>\<open>whitespace_split\<close> set and no comment characters, until a token is
  \<^verbatim>\<open>None\<close>. The states of the reader are \<^verbatim>\<open>' '\<close>, \<^verbatim>\<open>'a'\<close>, an open quote and
  the escape character.
\<close>

datatype lex_state = White | Word | Quote char | Escape

definition shlex_whitespace :: "char \<Rightarrow> bool" where
  "shlex_whitespace c = (c = CHR '' '' \<or> c = CHR 0x09 \<or> c = CHR 0x0D \<or> c = CHR 0x0A)"

definition shlex_quotes :: "char \<Rightarrow> bool" where
  "shlex_quotes c = (c = CHR 0x27 \<or> c = CHR 0x22)"

definition shlex_escape :: "char \<Rightarrow> bool" where
  "shlex_escape c = (c = CHR 0x5C)"

definition shlex_escapedquotes :: "char \<Rightarrow> bool" where
  "shlex_escapedquotes c = (c = CHR 0x22)"

text \<open>
  The end of \<^verbatim>\<open>read_token\<close>: an empty token that was not quoted is \<^verbatim>\<open>None\<close> and
  ends the list; any other token is followed by the tokens that the rest yields.
\<close>

definition emit :: "string \<Rightarrow> bool \<Rightarrow> error + string list \<Rightarrow> error + string list" where
  "emit token quoted following =
     (if \<not> quoted \<and> token = [] then Inr []
      else case following of Inl err \<Rightarrow> Inl err | Inr ts \<Rightarrow> Inr (token # ts))"

text \<open>
  The loop of \<^verbatim>\<open>read_token\<close>, one equation per state at the end of the input and
  one per state at a character. The arguments are \<^verbatim>\<open>self.state\<close>,
  \<^verbatim>\<open>escapedstate\<close>, \<^verbatim>\<open>quoted\<close> and \<^verbatim>\<open>self.token\<close>. With
  \<^verbatim>\<open>whitespace_split\<close> set, a character that is no white space, quote or escape is
  added to the token whether or not it is in \<^verbatim>\<open>wordchars\<close>.
\<close>

fun read_tokens :: "lex_state \<Rightarrow> lex_state \<Rightarrow> bool \<Rightarrow> string \<Rightarrow> string \<Rightarrow> error + string list" where
  "read_tokens White escapedstate quoted token [] = emit token quoted (Inr [])"
| "read_tokens Word escapedstate quoted token [] = emit token quoted (Inr [])"
| "read_tokens (Quote q) escapedstate quoted token [] = Inl ValueError"
| "read_tokens Escape escapedstate quoted token [] = Inl ValueError"
| "read_tokens White escapedstate quoted token (c # cs) =
     (if shlex_whitespace c then
        (if token \<noteq> [] \<or> quoted then emit token quoted (read_tokens White White False [] cs)
         else read_tokens White escapedstate quoted token cs)
      else if shlex_escape c then read_tokens Escape Word quoted token cs
      else if shlex_quotes c then read_tokens (Quote c) escapedstate quoted token cs
      else read_tokens Word escapedstate quoted [c] cs)"
| "read_tokens (Quote q) escapedstate quoted token (c # cs) =
     (if c = q then read_tokens Word escapedstate True token cs
      else if shlex_escape c \<and> shlex_escapedquotes q then read_tokens Escape (Quote q) True token cs
      else read_tokens (Quote q) escapedstate True (token @ [c]) cs)"
| "read_tokens Escape escapedstate quoted token (c # cs) =
     (let token1 = (case escapedstate of
                      Quote q \<Rightarrow> if \<not> shlex_escape c \<and> c \<noteq> q then token @ [CHR 0x5C] else token
                    | _ \<Rightarrow> token)
      in read_tokens escapedstate escapedstate quoted (token1 @ [c]) cs)"
| "read_tokens Word escapedstate quoted token (c # cs) =
     (if shlex_whitespace c then
        (if token \<noteq> [] \<or> quoted then emit token quoted (read_tokens White White False [] cs)
         else read_tokens White escapedstate quoted token cs)
      else if shlex_quotes c then read_tokens (Quote c) escapedstate quoted token cs
      else if shlex_escape c then read_tokens Escape Word quoted token cs
      else read_tokens Word escapedstate quoted (token @ [c]) cs)"

definition shlex_split :: "string \<Rightarrow> error + string list" where
  "shlex_split s = read_tokens White White False [] s"

subsection \<open>configparser.ConfigParser\<close>

text \<open>
  \<^verbatim>\<open>str.strip\<close>, \<^verbatim>\<open>str.rstrip\<close>, \<^verbatim>\<open>str.lower\<close> (which is
  \<^verbatim>\<open>optionxform\<close>), the lines that iterating over a text file yields, each with
  its newline, and \<^verbatim>\<open>'\n'.join\<close>.
\<close>

definition py_strip :: "string \<Rightarrow> string" where
  "py_strip s = rev (dropWhile is_space (rev (dropWhile is_space s)))"

definition py_rstrip :: "string \<Rightarrow> string" where
  "py_rstrip s = rev (dropWhile is_space (rev s))"

definition py_lower :: "string \<Rightarrow> string" where
  "py_lower s =
     map (\<lambda>c. let n = (of_char c :: nat) in if 65 \<le> n \<and> n \<le> 90 then char_of (n + 32) else c) s"

fun lines_from :: "string \<Rightarrow> string \<Rightarrow> string list" where
  "lines_from cur [] = (if cur = [] then [] else [cur])"
| "lines_from cur (c # cs) =
     (if c = CHR 0x0A then (cur @ [c]) # lines_from [] cs else lines_from (cur @ [c]) cs)"

fun join_lines :: "string list \<Rightarrow> string" where
  "join_lines [] = []"
| "join_lines [l] = l"
| "join_lines (l # m # ls) = l @ [CHR 0x0A] @ join_lines (m # ls)"

text \<open>
  The state of a parser made by \<^verbatim>\<open>ConfigParser()\<close> with the state of its method
  \<^verbatim>\<open>_read\<close>. A section is a dictionary from option names to the lines of the
  value; \<^verbatim>\<open>cursect\<close> refers either to \<^verbatim>\<open>self._defaults\<close> or to a section of
  \<^verbatim>\<open>self._sections\<close>. The field \<open>parse_error\<close> is the variable \<^verbatim>\<open>e\<close> of
  \<^verbatim>\<open>_read\<close>: whether a \<^verbatim>\<open>ParsingError\<close> is waiting to be raised at the end.
\<close>

type_synonym options = "(string \<times> string list) list"

datatype cursect_ref = Defaults | Section string

record parser =
  sections :: "(string \<times> options) list"
  defaults :: options
  elements_added :: "(string \<times> string option) list"
  cursect :: "cursect_ref option"
  sectname :: "string option"
  optname :: "string option"
  indent_level :: nat
  parse_error :: bool

definition DEFAULTSECT :: string where
  "DEFAULTSECT = ''DEFAULT''"

definition MAX_INTERPOLATION_DEPTH :: nat where
  "MAX_INTERPOLATION_DEPTH = 10"

text \<open>
  \<^verbatim>\<open>SECTCRE\<close>, which is \<^verbatim>\<open>\[(?P<header>.+)\]\<close>, and \<^verbatim>\<open>OPTCRE\<close>, which is
  \<^verbatim>\<open>(?P<option>.*?)\s*(?P<vi>=|:)\s*(?P<value>.*)$\<close>.
\<close>

definition SECTCRE :: re where
  "SECTCRE = cat_list [Chars ''['', Grp (Rep 1 not_newline), Chars '']'']"

definition OPTCRE :: re where
  "OPTCRE = cat_list [Grp (RepLazy 0 not_newline), Rep 0 is_space,
                      Grp (Alt (Chars ''='') (Chars '':'')), Rep 0 is_space,
                      Grp (Rep 0 not_newline), Eol]"

definition match_section :: "string \<Rightarrow> string option" where
  "match_section val = (case match SECTCRE val of Some [header] \<Rightarrow> Some header | _ \<Rightarrow> None)"

definition match_option :: "string \<Rightarrow> (string \<times> string) option" where
  "match_option val =
     (case match OPTCRE val of Some [option, vi, optval] \<Rightarrow> Some (option, optval) | _ \<Rightarrow> None)"

definition new_parser :: parser where
  "new_parser = \<lparr>sections = [], defaults = [], elements_added = [], cursect = None,
                  sectname = None, optname = None, indent_level = 0, parse_error = False\<rparr>"

definition cursect_options :: "parser \<Rightarrow> options" where
  "cursect_options p =
     (case cursect p of
        None \<Rightarrow> []
      | Some Defaults \<Rightarrow> defaults p
      | Some (Section n) \<Rightarrow> (case map_of (sections p) n of None \<Rightarrow> [] | Some d \<Rightarrow> d))"

text \<open>\<^verbatim>\<open>cursect[k] = v\<close> and \<^verbatim>\<open>cursect[k].append(line)\<close>.\<close>

definition cursect_set :: "parser \<Rightarrow> string \<Rightarrow> string list \<Rightarrow> parser" where
  "cursect_set p k v =
     (case cursect p of
        None \<Rightarrow> p
      | Some Defaults \<Rightarrow> p\<lparr>defaults := AList.update k v (defaults p)\<rparr>
      | Some (Section n) \<Rightarrow>
          p\<lparr>sections := AList.update n (AList.update k v (cursect_options p)) (sections p)\<rparr>)"

definition cursect_append :: "parser \<Rightarrow> string \<Rightarrow> string \<Rightarrow> parser" where
  "cursect_append p k line =
     (case map_of (cursect_options p) k of
        None \<Rightarrow> p
      | Some v \<Rightarrow> cursect_set p k (v @ [line]))"

text \<open>
  The body of the loop of \<^verbatim>\<open>_read\<close> for one line, with the defaults of
  \<^verbatim>\<open>ConfigParser()\<close>: the comment prefixes \<^verbatim>\<open>#\<close> and \<^verbatim>\<open>;\<close>, no inline
  comments, empty lines allowed in values, strict, and every option with a value.
\<close>

definition read_line :: "parser \<Rightarrow> string \<Rightarrow> error + parser" where
  "read_line p line =
     (let comment = (prefix ''#'' (py_strip line) \<or> prefix '';'' (py_strip line));
          val = (if comment then [] else py_strip line)
      in if val = [] then
           (case optname p of
              Some k \<Rightarrow>
                if \<not> comment \<and> cursect p \<noteq> None \<and> k \<noteq> [] then Inr (cursect_append p k [])
                else Inr p
            | None \<Rightarrow> Inr p)
         else
           (let cur_indent_level = length (takeWhile is_space line);
                continuation =
                  (case optname p of
                     Some k \<Rightarrow> cursect p \<noteq> None \<and> k \<noteq> [] \<and> cur_indent_level > indent_level p
                   | None \<Rightarrow> False)
            in if continuation then
                 (case optname p of Some k \<Rightarrow> Inr (cursect_append p k val) | None \<Rightarrow> Inr p)
               else
                 (let p1 = p\<lparr>indent_level := cur_indent_level\<rparr>
                  in case match_section val of
                       Some header \<Rightarrow>
                         (if header \<in> fst ` set (sections p1) then
                            (if (header, None) \<in> set (elements_added p1) then Inl DuplicateSectionError
                             else Inr (p1\<lparr>sectname := Some header, cursect := Some (Section header),
                                           elements_added := elements_added p1 @ [(header, None)],
                                           optname := None\<rparr>))
                          else if header = DEFAULTSECT then
                            Inr (p1\<lparr>sectname := Some header, cursect := Some Defaults, optname := None\<rparr>)
                          else
                            Inr (p1\<lparr>sectname := Some header, cursect := Some (Section header),
                                      sections := sections p1 @ [(header, [])],
                                      elements_added := elements_added p1 @ [(header, None)],
                                      optname := None\<rparr>))
                     | None \<Rightarrow>
                         (case sectname p1 of
                            None \<Rightarrow> Inl MissingSectionHeaderError
                          | Some sn \<Rightarrow>
                              (case match_option val of
                                 Some (option, optval) \<Rightarrow>
                                   (let p2 = (if option = [] then p1\<lparr>parse_error := True\<rparr> else p1);
                                        k = py_lower (py_rstrip option)
                                    in if (sn, Some k) \<in> set (elements_added p2) then Inl DuplicateOptionError
                                       else Inr (cursect_set
                                                   (p2\<lparr>optname := Some k,
                                                         elements_added := elements_added p2 @ [(sn, Some k)]\<rparr>)
                                                   k [py_strip optval]))
                               | None \<Rightarrow> Inr (p1\<lparr>parse_error := True\<rparr>))))))"

fun read_lines :: "parser \<Rightarrow> string list \<Rightarrow> error + parser" where
  "read_lines p [] = Inr p"
| "read_lines p (l # ls) = (case read_line p l of Inl err \<Rightarrow> Inl err | Inr p1 \<Rightarrow> read_lines p1 ls)"

text \<open>
  \<^verbatim>\<open>_join_multiline_values\<close>: the lines of each value are joined and stripped on
  the right.
\<close>

definition join_multiline_values :: "parser \<Rightarrow> parser" where
  "join_multiline_values p =
     p\<lparr>defaults := map (\<lambda>(k, v). (k, [py_rstrip (join_lines v)])) (defaults p),
       sections := map (\<lambda>(n, d). (n, map (\<lambda>(k, v). (k, [py_rstrip (join_lines v)])) d)) (sections p)\<rparr>"

text \<open>
  \<^verbatim>\<open>config = configparser.ConfigParser(); config.read(test_path)\<close> (lines 71 and
  72). The argument is the text of the file, or \<open>None\<close> for a directory entry that
  cannot be opened as a file, which \<^verbatim>\<open>read\<close> passes over.
\<close>

definition config_read :: "string option \<Rightarrow> error + parser" where
  "config_read file =
     (case file of
        None \<Rightarrow> Inr new_parser
      | Some text \<Rightarrow>
          (case read_lines new_parser (lines_from [] text) of
             Inl err \<Rightarrow> Inl err
           | Inr p \<Rightarrow> if parse_error p then Inl ParsingError else Inr (join_multiline_values p)))"

text \<open>
  \<^verbatim>\<open>BasicInterpolation._interpolate_some\<close>, which \<^verbatim>\<open>get\<close> applies to a value:
  \<^verbatim>\<open>%%\<close> stands for a percent sign and \<^verbatim>\<open>%(name)s\<close> for the value of the option
  \<^verbatim>\<open>name\<close>, itself interpolated one level deeper.
\<close>

function interpolate_some :: "nat \<Rightarrow> (string \<rightharpoonup> string) \<Rightarrow> string \<Rightarrow> error + string" where
  "interpolate_some depth mp rest =
     (if depth > MAX_INTERPOLATION_DEPTH then Inl InterpolationDepthError
      else if rest = [] then Inr []
      else if CHR ''%'' \<notin> set rest then Inr rest
      else
        (let pre = takeWhile (\<lambda>c. c \<noteq> CHR ''%'') rest;
             rest1 = dropWhile (\<lambda>c. c \<noteq> CHR ''%'') rest;
             c = take 1 (drop 1 rest1)
         in if c = ''%'' then
              (case interpolate_some depth mp (drop 2 rest1) of
                 Inl err \<Rightarrow> Inl err
               | Inr s \<Rightarrow> Inr (pre @ ''%'' @ s))
            else if c = ''('' then
              (let var = takeWhile (\<lambda>c. c \<noteq> CHR '')'') (drop 2 rest1);
                   after = drop (2 + length var) rest1
               in if var = [] \<or> take 2 after \<noteq> '')s'' then Inl InterpolationSyntaxError
                  else
                    (case mp (py_lower var) of
                       None \<Rightarrow> Inl InterpolationMissingOptionError
                     | Some v \<Rightarrow>
                         (case (if CHR ''%'' \<in> set v then interpolate_some (Suc depth) mp v else Inr v) of
                            Inl err \<Rightarrow> Inl err
                          | Inr s1 \<Rightarrow>
                              (case interpolate_some depth mp (drop 2 after) of
                                 Inl err \<Rightarrow> Inl err
                               | Inr s2 \<Rightarrow> Inr (pre @ s1 @ s2)))))
            else Inl InterpolationSyntaxError))"
  by pat_completeness auto
termination
proof (relation "measures [\<lambda>(depth, mp, rest). Suc MAX_INTERPOLATION_DEPTH - depth,
                           \<lambda>(depth, mp, rest). length rest]", goal_cases)
  case 1
  show ?case by simp
next
  case (2 depth mp rest pre rest1 c)
  have "length (dropWhile (\<lambda>c. c \<noteq> CHR ''%'') rest) \<le> length rest"
    by (rule length_dropWhile_le)
  moreover from 2 have "dropWhile (\<lambda>c. c \<noteq> CHR ''%'') rest \<noteq> []" by auto
  ultimately show ?case using 2 by (cases "dropWhile (\<lambda>c. c \<noteq> CHR ''%'') rest") auto
next
  case (3 depth mp rest pre rest1 c var after v)
  then show ?case by auto
next
  case (4 depth mp rest pre rest1 c var after v s1)
  have "length (dropWhile (\<lambda>c. c \<noteq> CHR ''%'') rest) \<le> length rest"
    by (rule length_dropWhile_le)
  moreover from 4 have "dropWhile (\<lambda>c. c \<noteq> CHR ''%'') rest \<noteq> []" by auto
  ultimately show ?case using 4 by (cases "dropWhile (\<lambda>c. c \<noteq> CHR ''%'') rest") auto
qed

text \<open>
  \<^verbatim>\<open>_unify_values\<close>: the options of the section before those of the default
  section.
\<close>

definition unify_values :: "parser \<Rightarrow> string \<Rightarrow> (string \<rightharpoonup> string)" where
  "unify_values p section =
     (\<lambda>k. case map_of (case map_of (sections p) section of None \<Rightarrow> [] | Some d \<Rightarrow> d) k of
             Some v \<Rightarrow> Some (join_lines v)
           | None \<Rightarrow> map_option join_lines (map_of (defaults p) k))"

definition has_option :: "parser \<Rightarrow> string \<Rightarrow> string \<Rightarrow> bool" where
  "has_option p section option =
     (if section = [] \<or> section = DEFAULTSECT then py_lower option \<in> fst ` set (defaults p)
      else case map_of (sections p) section of
             None \<Rightarrow> False
           | Some d \<Rightarrow> py_lower option \<in> fst ` set d \<or> py_lower option \<in> fst ` set (defaults p))"

text \<open>
  \<^verbatim>\<open>config[section][option]\<close>: \<^verbatim>\<open>ConfigParser.__getitem__\<close>, then
  \<^verbatim>\<open>SectionProxy.__getitem__\<close>, which calls \<^verbatim>\<open>get\<close>.
\<close>

definition config_get :: "parser \<Rightarrow> string \<Rightarrow> string \<Rightarrow> error + string" where
  "config_get p section option =
     (if section \<noteq> DEFAULTSECT \<and> section \<notin> fst ` set (sections p) then Inl (KeyError section)
      else if \<not> has_option p section option then Inl (KeyError option)
      else case unify_values p section (py_lower option) of
             None \<Rightarrow> Inl (KeyError option)
           | Some v \<Rightarrow> interpolate_some 1 (unify_values p section) v)"

subsection \<open>Unit tests (lines 68 to 74)\<close>

text \<open>\<^verbatim>\<open>Path.stem\<close> of a file name: the name without its last suffix.\<close>

definition stem :: "string \<Rightarrow> string" where
  "stem name =
     (let i = length name - length (takeWhile (\<lambda>c. c \<noteq> CHR ''.'') (rev name)) - 1
      in if CHR ''.'' \<in> set name \<and> 0 < i \<and> i < length name - 1 then take i name else name)"

text \<open>
  The loop of line 70. The first argument lists the entries of the directory
  \<^verbatim>\<open>share/installed-tests/SDL3\<close> under the prefix, in the order of
  \<^verbatim>\<open>iterdir()\<close>: each name with the text of the file, or with \<open>None\<close> if it
  cannot be opened. The second is the dictionary \<^verbatim>\<open>tests\<close>.
\<close>

fun get_unit_tests_from :: "(string \<times> string option) list \<Rightarrow> tests \<Rightarrow> error + tests" where
  "get_unit_tests_from [] tests = Inr tests"
| "get_unit_tests_from ((test_path, file) # rest) tests =
     (case config_read file of
        Inl err \<Rightarrow> Inl err
      | Inr config \<Rightarrow>
          (case config_get config ''Test'' ''Exec'' of
             Inl err \<Rightarrow> Inl err
           | Inr v \<Rightarrow>
               (case shlex_split v of
                  Inl err \<Rightarrow> Inl err
                | Inr argv \<Rightarrow> get_unit_tests_from rest (AList.update (stem test_path) argv tests))))"

definition get_unit_tests :: "(string \<times> string option) list \<Rightarrow> error + tests" where
  "get_unit_tests installed_tests = get_unit_tests_from installed_tests []"

section \<open>Predicates of the statements\<close>

text \<open>
  Every child in the list was started with the environment \<open>e\<close> and the time limit
  \<^verbatim>\<open>MAX_TEST_TIME\<close>.
\<close>

definition started_with :: "env \<Rightarrow> call list \<Rightarrow> bool" where
  "started_with e cs = (\<forall>c \<in> set cs. child_env c = e \<and> timeout c = MAX_TEST_TIME)"

text \<open>
  The outcome function returns only what \<^verbatim>\<open>run_process_with_timeout\<close> can return
  (lines 46, 48 and 50).
\<close>

definition runner_range :: "runner \<Rightarrow> bool" where
  "runner_range rp = (\<forall>n c t e. rp n c t e \<in> {SUCCESS, FAILED, TIMEOUT})"

section \<open>Concrete inputs\<close>

text \<open>
  Outcome functions: every child succeeds; every child fails; the child started second
  fails (numbered 1); the child started third fails (numbered 2); every child but the
  first times out.
\<close>

fun all_pass :: runner where
  "all_pass n c t e = SUCCESS"

fun all_fail :: runner where
  "all_fail n c t e = FAILED"

fun second_fails :: runner where
  "second_fails n c t e = (if n = 1 then FAILED else SUCCESS)"

fun third_fails :: runner where
  "third_fails n c t e = (if n = 2 then FAILED else SUCCESS)"

fun later_time_out :: runner where
  "later_time_out n c t e = (if n = 0 then SUCCESS else TIMEOUT)"

text \<open>
  Fixtures for the concrete runs below: an older tag \<^verbatim>\<open>v1\<close> (3.1.0) and the tag
  under test \<^verbatim>\<open>v2\<close> (3.2.0), in automation mode.
\<close>

text \<open>The working directory \<^verbatim>\<open>Path("work")\<close> of the concrete runs.\<close>

definition work_dir :: path where
  "work_dir = parse_part ''work''"

definition example_args :: args where
  "example_args =
     \<lparr>other_tags = [''v1''], dut_tag = ''v2'', filter_tests = None,
      filter_testautomation = None, testautomation = True\<rparr>"

definition example_disk :: "string \<Rightarrow> tag_data" where
  "example_disk tag =
     \<lparr>d_version = (if tag = ''v1'' then (3, 1, 0) else (3, 2, 0)),
      d_tests = [(''testautomation'', [''/opt/testautomation''])],
      d_cases = [''audio_a'', ''video_b'']\<rparr>"

definition example_tables :: tag_tables where
  "example_tables = pipeline work_dir example_args example_disk"

text \<open>The parent's environment in the concrete runs.\<close>

definition example_environ :: env where
  "example_environ = [''PATH'' \<mapsto> ''/usr/bin'', ''HOME'' \<mapsto> ''/root'']"

text \<open>
  A run in which the first other tag, \<^verbatim>\<open>v3\<close> (3.3.0), is newer than the tag under
  test, \<^verbatim>\<open>v2\<close> (3.2.0), and the second, \<^verbatim>\<open>v1\<close> (3.1.0), is older. Every tag
  installs one unit test, \<^verbatim>\<open>testver\<close>.
\<close>

definition newer_args :: args where
  "newer_args =
     \<lparr>other_tags = [''v3'', ''v1''], dut_tag = ''v2'', filter_tests = None,
      filter_testautomation = None, testautomation = False\<rparr>"

definition newer_disk :: "string \<Rightarrow> tag_data" where
  "newer_disk tag =
     \<lparr>d_version = (if tag = ''v3'' then (3, 3, 0) else if tag = ''v1'' then (3, 1, 0) else (3, 2, 0)),
      d_tests = [(''testver'', [''/opt/testver''])],
      d_cases = []\<rparr>"

text \<open>
  The run in automation mode again, now started with
  \<^verbatim>\<open>--filter-testautomation audio\<close> and without \<^verbatim>\<open>--testautomation\<close>.
\<close>

definition filtered_args :: args where
  "filtered_args =
     \<lparr>other_tags = [''v1''], dut_tag = ''v2'', filter_tests = None,
      filter_testautomation = Some ''audio'', testautomation = False\<rparr>"

text \<open>
  A test descriptor with the line \<^verbatim>\<open>Exec=/bin/true --flag "a b"\<close> in its section
  \<^verbatim>\<open>Test\<close>, and a C source with the declaration
  \<^verbatim>\<open>static const SDLTest_TestCaseReference fooRef = {foo, "foo.bar-1", ...};\<close>
  between two other lines.
\<close>

definition descriptor_text :: string where
  "descriptor_text =
     ''[Test]'' @ [CHR 0x0A] @
     ''Type=session'' @ [CHR 0x0A] @
     ''Exec=/bin/true --flag '' @ [CHR 0x22] @ ''a b'' @ [CHR 0x22] @ [CHR 0x0A]"

definition reference_declaration :: string where
  "reference_declaration =
     ''static const SDLTest_TestCaseReference fooRef = {foo, '' @ [CHR 0x22] @ ''foo.bar-1''
       @ [CHR 0x22] @ '', ...};''"

definition reference_source :: string where
  "reference_source =
     ''/* Test references */'' @ [CHR 0x0A] @ reference_declaration @ [CHR 0x0A] @
     ''static int count = 0;'' @ [CHR 0x0A]"

section \<open>Properties\<close>

subsection \<open>The success flag\<close>

text \<open>The rules by which a substring test on literals is computed.\<close>

lemmas str_in_eval = str_in_def sublist_code

lemma accumulate_iff: "accumulate s r = (s \<and> r = SUCCESS)"
  by (auto simp: accumulate_def)

lemma run_unit_tests_success:
  "distinct (map fst ts) \<Longrightarrow>
   run_unit_tests rp f e ts res st = (res', st') \<Longrightarrow>
   success st' = (success st \<and> (\<forall>n \<in> fst ` set ts. res' n = Some SUCCESS))
   \<and> (\<forall>n. n \<notin> fst ` set ts \<longrightarrow> res' n = res n)"
proof (induction ts arbitrary: res st)
  case Nil
  then show ?case by simp
next
  case (Cons t ts)
  obtain name c where t: "t = (name, c)" by (cases t)
  obtain r st1 where step:
    "(if filtered_out f name then (SKIP, st) else spawn rp c MAX_TEST_TIME e st) = (r, st1)"
    by (cases "if filtered_out f name then (SKIP, st) else spawn rp c MAX_TEST_TIME e st")
  have s1: "success st1 = success st"
    using step by (auto simp: spawn_def split: if_splits)
  let ?st2 = "st1\<lparr>test_result := Some r, success := accumulate (success st1) r\<rparr>"
  have rec: "run_unit_tests rp f e ts (res(name \<mapsto> r)) ?st2 = (res', st')"
    using Cons.prems(2) step by (simp add: t)
  have d: "distinct (map fst ts)" and nin: "name \<notin> fst ` set ts"
    using Cons.prems(1) by (auto simp: t)
  from Cons.IH [OF d rec]
  have ih: "success st' = (success ?st2 \<and> (\<forall>n \<in> fst ` set ts. res' n = Some SUCCESS))"
    and fr: "\<forall>n. n \<notin> fst ` set ts \<longrightarrow> res' n = (res(name \<mapsto> r)) n"
    by blast+
  have rn: "res' name = Some r" using fr nin by simp
  show ?case
    using ih fr rn s1 by (auto simp: t accumulate_iff)
qed


text \<open>
  C1, as the claim states it, does not hold: a test that the name filter skips is
  recorded as \<^verbatim>\<open>SKIP\<close>, and line 194 then sets the flag to false, so that the
  script exits with 1 although no test failed. Here the filter is \<^verbatim>\<open>foo\<close> and the
  only test is named \<^verbatim>\<open>alpha\<close>.
\<close>

theorem skip_flips_success:
  "success (snd (run_unit_tests all_pass (Some ''foo'') Map.empty
      [(''alpha'', [''/opt/alpha''])] Map.empty
      \<lparr>success = True, test_result = None, calls = []\<rparr>)) = False
   \<and> fst (run_unit_tests all_pass (Some ''foo'') Map.empty
      [(''alpha'', [''/opt/alpha''])] Map.empty
      \<lparr>success = True, test_result = None, calls = []\<rparr>) ''alpha'' = Some SKIP
   \<and> exit_code (success (snd (run_unit_tests all_pass (Some ''foo'') Map.empty
      [(''alpha'', [''/opt/alpha''])] Map.empty
      \<lparr>success = True, test_result = None, calls = []\<rparr>))) = 1"
  by (simp add: accumulate_def exit_code_def str_in_eval)

text \<open>
  C1, amended: after the loop over the unit tests of a tag, the success flag is true
  exactly when it was true before and every recorded result is \<^verbatim>\<open>SUCCESS\<close>. So a
  \<^verbatim>\<open>FAILED\<close> or \<^verbatim>\<open>TIMEOUT\<close> result makes it false, a \<^verbatim>\<open>SKIP\<close> or \<^verbatim>\<open>n/a\<close>
  result makes it false as well, and once false it stays false; the exit code is 0
  when the flag is true and 1 otherwise.
\<close>

theorem success_iff_all_SUCCESS:
  assumes "distinct (map fst ts)"
    and "run_unit_tests rp f e ts res st = (res', st')"
  shows "success st' = (success st \<and> (\<forall>n \<in> fst ` set ts. res' n = Some SUCCESS))
         \<and> exit_code (success st') = (if success st' then 0 else 1)"
  using run_unit_tests_success [OF assms] by (simp add: exit_code_def)

theorem success_iff_all_SUCCESS_witness:
  "distinct (map fst [(''alpha'', [''/opt/alpha'']), (''beta'', [''/opt/beta''])])
   \<and> success (snd (run_unit_tests later_time_out None Map.empty
        [(''alpha'', [''/opt/alpha'']), (''beta'', [''/opt/beta''])] Map.empty
        \<lparr>success = True, test_result = None, calls = []\<rparr>)) = False
   \<and> fst (run_unit_tests later_time_out None Map.empty
        [(''alpha'', [''/opt/alpha'']), (''beta'', [''/opt/beta''])] Map.empty
        \<lparr>success = True, test_result = None, calls = []\<rparr>) ''beta'' = Some TIMEOUT"
proof -
  let ?ts = "[(''alpha'', [''/opt/alpha'']), (''beta'', [''/opt/beta''])]"
  let ?run = "run_unit_tests later_time_out None Map.empty
        ?ts Map.empty \<lparr>success = True, test_result = None, calls = []\<rparr>"
  have d: "distinct (map fst ?ts)" by simp
  have b: "fst ?run ''beta'' = Some TIMEOUT" by (simp add: spawn_def)
  have r: "?run = (fst ?run, snd ?run)" by simp
  from success_iff_all_SUCCESS [OF d r] b d show ?thesis by auto
qed

subsection \<open>The loop over the unit tests\<close>

lemma run_unit_tests_frame:
  "run_unit_tests rp f e ts res st = (res', st') \<Longrightarrow> n \<notin> fst ` set ts \<Longrightarrow> res' n = res n"
proof (induction ts arbitrary: res st)
  case Nil
  then show ?case by simp
next
  case (Cons t ts)
  obtain name c where t: "t = (name, c)" by (cases t)
  show ?case
    using Cons.prems Cons.IH
    by (auto simp: t split: prod.splits if_splits)
qed

lemma run_unit_tests_calls:
  "run_unit_tests rp f e ts res st = (res', st') \<Longrightarrow>
   calls st' = calls st @ map (\<lambda>(n, c). \<lparr>cmd = c, timeout = MAX_TEST_TIME, child_env = e\<rparr>)
                              (filter (\<lambda>(n, c). \<not> filtered_out f n) ts)"
proof (induction ts arbitrary: res st)
  case Nil
  then show ?case by simp
next
  case (Cons t ts)
  obtain name c where t: "t = (name, c)" by (cases t)
  show ?case
  proof (cases "filtered_out f name")
    case True
    with Cons.prems have
      "run_unit_tests rp f e ts (res(name \<mapsto> SKIP))
         (st\<lparr>test_result := Some SKIP, success := accumulate (success st) SKIP\<rparr>) = (res', st')"
      by (simp add: t)
    from Cons.IH [OF this] True show ?thesis by (simp add: t)
  next
    case False
    let ?r = "rp (length (calls st)) c MAX_TEST_TIME e"
    let ?st1 = "st\<lparr>calls := calls st @ [\<lparr>cmd = c, timeout = MAX_TEST_TIME, child_env = e\<rparr>]\<rparr>"
    from False Cons.prems have
      "run_unit_tests rp f e ts (res(name \<mapsto> ?r))
         (?st1\<lparr>test_result := Some ?r, success := accumulate (success ?st1) ?r\<rparr>) = (res', st')"
      by (simp add: t spawn_def)
    from Cons.IH [OF this] False show ?thesis by (simp add: t)
  qed
qed

lemma run_unit_tests_skip:
  "run_unit_tests rp f e ts res st = (res', st') \<Longrightarrow>
   n \<in> fst ` set ts \<Longrightarrow> filtered_out f n \<Longrightarrow> res' n = Some SKIP"
proof (induction ts arbitrary: res st)
  case Nil
  then show ?case by simp
next
  case (Cons t ts)
  obtain name c' where t: "t = (name, c')" by (cases t)
  obtain r st1 where step:
    "(if filtered_out f name then (SKIP, st) else spawn rp c' MAX_TEST_TIME e st) = (r, st1)"
    by (cases "if filtered_out f name then (SKIP, st) else spawn rp c' MAX_TEST_TIME e st")
  let ?st2 = "st1\<lparr>test_result := Some r, success := accumulate (success st1) r\<rparr>"
  have rec: "run_unit_tests rp f e ts (res(name \<mapsto> r)) ?st2 = (res', st')"
    using Cons.prems(1) step by (simp add: t)
  show ?case
  proof (cases "n \<in> fst ` set ts")
    case True
    from Cons.IH [OF rec True Cons.prems(3)] show ?thesis .
  next
    case False
    with Cons.prems(2) have nm: "n = name" by (auto simp: t)
    with Cons.prems(3) step have "r = SKIP" by simp
    with run_unit_tests_frame [OF rec False] nm show ?thesis by simp
  qed
qed

text \<open>
  C6: with a unit-test name filter configured (a non-empty string), every unit test of
  the tag whose name does not contain the filter is recorded as \<^verbatim>\<open>SKIP\<close>, and the
  child processes started by the loop are exactly those of the tests whose names do
  contain it, in order: no process is started for a filtered test.
\<close>

theorem filtered_tests_skipped_unstarted:
  assumes "flt \<noteq> []"
    and "run_unit_tests rp (Some flt) e ts res st = (res', st')"
  shows "(\<forall>n \<in> fst ` set ts. \<not> str_in flt n \<longrightarrow> res' n = Some SKIP)
         \<and> calls st' = calls st @ map (\<lambda>(n, c). \<lparr>cmd = c, timeout = MAX_TEST_TIME, child_env = e\<rparr>)
                                     (filter (\<lambda>(n, c). str_in flt n) ts)"
proof -
  have "\<And>n. n \<in> fst ` set ts \<Longrightarrow> \<not> str_in flt n \<Longrightarrow> res' n = Some SKIP"
    using run_unit_tests_skip [OF assms(2)] assms(1) by simp
  moreover have "(\<lambda>(n, c). \<not> filtered_out (Some flt) n) = (\<lambda>(n :: string, c :: string list). str_in flt n)"
    using assms(1) by (simp add: fun_eq_iff)
  ultimately show ?thesis
    using run_unit_tests_calls [OF assms(2)] by simp
qed

theorem filtered_tests_skipped_unstarted_witness:
  "''foo'' \<noteq> []
   \<and> fst (run_unit_tests all_fail (Some ''foo'') Map.empty
        [(''alpha'', [''/opt/alpha'']), (''myfoo2'', [''/opt/myfoo2'', ''-v''])] Map.empty
        \<lparr>success = True, test_result = None, calls = []\<rparr>) ''alpha'' = Some SKIP
   \<and> calls (snd (run_unit_tests all_fail (Some ''foo'') Map.empty
        [(''alpha'', [''/opt/alpha'']), (''myfoo2'', [''/opt/myfoo2'', ''-v''])] Map.empty
        \<lparr>success = True, test_result = None, calls = []\<rparr>))
      = [\<lparr>cmd = [''/opt/myfoo2'', ''-v''], timeout = MAX_TEST_TIME, child_env = Map.empty\<rparr>]"
proof -
  let ?ts = "[(''alpha'', [''/opt/alpha'']), (''myfoo2'', [''/opt/myfoo2'', ''-v''])]"
  let ?run = "run_unit_tests all_fail (Some ''foo'') Map.empty
        ?ts Map.empty \<lparr>success = True, test_result = None, calls = []\<rparr>"
  have ne: "''foo'' \<noteq> []" by simp
  have r: "?run = (fst ?run, snd ?run)" by simp
  have a: "\<not> str_in ''foo'' ''alpha''" and b: "str_in ''foo'' ''myfoo2''"
    by (simp_all add: str_in_eval)
  from filtered_tests_skipped_unstarted [OF ne r] a b show ?thesis by simp
qed

subsection \<open>The loop over the automation cases\<close>

lemma run_automation_cases_success:
  "run_automation_cases rp f e tc cs res st = (res', st') \<Longrightarrow> success st' = success st"
proof (induction cs arbitrary: res st)
  case Nil
  then show ?case by simp
next
  case (Cons c cs)
  then show ?case
    by (auto simp: spawn_def split: if_splits)
qed

lemma run_automation_cases_frame:
  "run_automation_cases rp f e tc cs res st = (res', st') \<Longrightarrow> n \<notin> set cs \<Longrightarrow> res' n = res n"
proof (induction cs arbitrary: res st)
  case Nil
  then show ?case by simp
next
  case (Cons c cs)
  then show ?case
    by (auto split: prod.splits if_splits)
qed

lemma run_automation_cases_last:
  "run_automation_cases rp f e tc cs res st = (res', st') \<Longrightarrow> cs \<noteq> [] \<Longrightarrow>
   \<exists>r. test_result st' = Some r \<and> res' (last cs) = Some r"
proof (induction cs arbitrary: res st)
  case Nil
  then show ?case by simp
next
  case (Cons c cs)
  obtain r st1 where step:
    "(if filtered_out f c then (SKIP, st) else spawn rp (tc @ [''--filter'', c]) MAX_TEST_TIME e st) = (r, st1)"
    by (cases "if filtered_out f c then (SKIP, st) else spawn rp (tc @ [''--filter'', c]) MAX_TEST_TIME e st")
  have rec: "run_automation_cases rp f e tc cs (res(c \<mapsto> r)) (st1\<lparr>test_result := Some r\<rparr>) = (res', st')"
    using Cons.prems(1) step by simp
  show ?case
  proof (cases "cs = []")
    case True
    with rec show ?thesis by auto
  next
    case False
    from Cons.IH [OF rec False] False show ?thesis by simp
  qed
qed

lemma run_unit_tests_last:
  "run_unit_tests rp f e ts res st = (res', st') \<Longrightarrow> ts \<noteq> [] \<Longrightarrow>
   \<exists>r. test_result st' = Some r \<and> (success st' \<longrightarrow> r = SUCCESS)"
proof (induction ts arbitrary: res st)
  case Nil
  then show ?case by simp
next
  case (Cons t ts)
  obtain name c where t: "t = (name, c)" by (cases t)
  obtain r st1 where step:
    "(if filtered_out f name then (SKIP, st) else spawn rp c MAX_TEST_TIME e st) = (r, st1)"
    by (cases "if filtered_out f name then (SKIP, st) else spawn rp c MAX_TEST_TIME e st")
  let ?st2 = "st1\<lparr>test_result := Some r, success := accumulate (success st1) r\<rparr>"
  have rec: "run_unit_tests rp f e ts (res(name \<mapsto> r)) ?st2 = (res', st')"
    using Cons.prems(1) step by (simp add: t)
  show ?case
  proof (cases "ts = []")
    case True
    with rec show ?thesis by (auto simp: accumulate_iff)
  next
    case False
    from Cons.IH [OF rec False] show ?thesis .
  qed
qed

lemma map_of_nonempty: "map_of ts k = Some v \<Longrightarrow> ts \<noteq> []"
  by auto

subsection \<open>The children started by the comparison engine\<close>

lemma run_automation_cases_calls:
  "run_automation_cases rp f e tc cs res st = (res', st') \<Longrightarrow>
   calls st' = calls st @ map (\<lambda>c. \<lparr>cmd = tc @ [''--filter'', c], timeout = MAX_TEST_TIME, child_env = e\<rparr>)
                              (filter (\<lambda>c. \<not> filtered_out f c) cs)"
proof (induction cs arbitrary: res st)
  case Nil
  then show ?case by simp
next
  case (Cons c cs)
  show ?case
  proof (cases "filtered_out f c")
    case True
    with Cons.prems have
      "run_automation_cases rp f e tc cs (res(c \<mapsto> SKIP)) (st\<lparr>test_result := Some SKIP\<rparr>) = (res', st')"
      by simp
    from Cons.IH [OF this] True show ?thesis by simp
  next
    case False
    let ?cmd = "tc @ [''--filter'', c]"
    let ?r = "rp (length (calls st)) ?cmd MAX_TEST_TIME e"
    let ?st1 = "st\<lparr>calls := calls st @ [\<lparr>cmd = ?cmd, timeout = MAX_TEST_TIME, child_env = e\<rparr>]\<rparr>"
    from False Cons.prems have
      "run_automation_cases rp f e tc cs (res(c \<mapsto> ?r)) (?st1\<lparr>test_result := Some ?r\<rparr>) = (res', st')"
      by (simp add: spawn_def)
    from Cons.IH [OF this] False show ?thesis by simp
  qed
qed

lemma run_automation_cases_last_result:
  "run_automation_cases rp f e tc cs res st = (res', st') \<Longrightarrow> cs \<noteq> [] \<Longrightarrow>
   test_result st' =
     Some (if filtered_out f (last cs) then SKIP
           else rp (length (calls st') - 1) (tc @ [''--filter'', last cs]) MAX_TEST_TIME e)"
proof (induction cs arbitrary: res st)
  case Nil
  then show ?case by simp
next
  case (Cons c cs)
  obtain r st1 where step:
    "(if filtered_out f c then (SKIP, st) else spawn rp (tc @ [''--filter'', c]) MAX_TEST_TIME e st) = (r, st1)"
    by (cases "if filtered_out f c then (SKIP, st) else spawn rp (tc @ [''--filter'', c]) MAX_TEST_TIME e st")
  have rec: "run_automation_cases rp f e tc cs (res(c \<mapsto> r)) (st1\<lparr>test_result := Some r\<rparr>) = (res', st')"
    using Cons.prems(1) step by simp
  show ?case
  proof (cases "cs = []")
    case True
    with rec have st': "st' = st1\<lparr>test_result := Some r\<rparr>" by simp
    show ?thesis
      using step True st' by (auto simp: spawn_def split: if_splits)
  next
    case False
    from Cons.IH [OF rec False] False show ?thesis by simp
  qed
qed

text \<open>
  C5: for a tag that passes the version check, in automation mode and with a unit test
  named \<^verbatim>\<open>testautomation\<close>, the loop body completes. After the unit tests it
  starts one child per automation case that the filter lets through, in order, with
  the command of \<^verbatim>\<open>testautomation\<close> followed by \<^verbatim>\<open>--filter\<close> and the case. The
  flag is updated once, from the last case only: it is true afterwards exactly when it
  was true after the unit tests and, if there is a case at all, the last case was not
  skipped and the runner returned \<^verbatim>\<open>SUCCESS\<close> for the child of the last case, which
  is the child started last. What the runner returned for earlier cases does not
  occur. In terms of the recorded results: the flag is true exactly when it was
  true before the tag, every unit test of the tag is recorded as \<^verbatim>\<open>SUCCESS\<close> and
  the last case, if there is one, is recorded as \<^verbatim>\<open>SUCCESS\<close>.
\<close>

theorem automation_flag_from_last_case:
  assumes ta: "testautomation a"
    and vo: "TAG_VERSION T tag = Some v"
    and vd: "TAG_VERSION T (dut_tag a) = Some v_dut"
    and le: "version_le v v_dut"
    and tt: "TAG_TESTS T tag = Some ts"
    and di: "distinct (map fst ts)"
    and tc: "map_of ts ''testautomation'' = Some tc"
    and ac: "TAG_AUTOMATION_CASES T tag = Some cs"
    and u: "run_unit_tests rp (filter_tests a) e ts Map.empty (run es) = (ures, st1)"
  shows "\<exists>es' ares.
           compare_tag rp a e T es tag = Inr es'
           \<and> TEST_RESULTS es' tag = Some ures
           \<and> TESTAUTOMATION_RESULTS es' tag = Some ares
           \<and> calls (run es') =
               calls st1 @ map (\<lambda>c. \<lparr>cmd = tc @ [''--filter'', c], timeout = MAX_TEST_TIME, child_env = e\<rparr>)
                               (filter (\<lambda>c. \<not> filtered_out (filter_testautomation a) c) cs)
           \<and> success (run es') =
               (success (run es) \<and> (\<forall>n \<in> fst ` set ts. ures n = Some SUCCESS)
                \<and> (cs \<noteq> [] \<longrightarrow> ares (last cs) = Some SUCCESS))
           \<and> success (run es') =
               (success st1
                \<and> (cs \<noteq> [] \<longrightarrow>
                      \<not> filtered_out (filter_testautomation a) (last cs)
                      \<and> rp (length (calls (run es')) - 1) (tc @ [''--filter'', last cs]) MAX_TEST_TIME e
                          = SUCCESS))"
proof -
  obtain ares st2 where au:
    "run_automation_cases rp (filter_testautomation a) e tc cs Map.empty st1 = (ares, st2)"
    by (cases "run_automation_cases rp (filter_testautomation a) e tc cs Map.empty st1")
  have s1: "success st1 = (success (run es) \<and> (\<forall>n \<in> fst ` set ts. ures n = Some SUCCESS))"
    using run_unit_tests_success [OF di u] by simp
  have s2: "success st2 = success st1"
    using run_automation_cases_success [OF au] .
  have c2: "calls st2 =
              calls st1 @ map (\<lambda>c. \<lparr>cmd = tc @ [''--filter'', c], timeout = MAX_TEST_TIME, child_env = e\<rparr>)
                              (filter (\<lambda>c. \<not> filtered_out (filter_testautomation a) c) cs)"
    using run_automation_cases_calls [OF au] .
  have ne: "ts \<noteq> []" using tc by (rule map_of_nonempty)
  obtain r where r: "test_result st2 = Some r"
    and rl: "cs \<noteq> [] \<longrightarrow> ares (last cs) = Some r"
    and rr: "cs \<noteq> [] \<longrightarrow>
               r = (if filtered_out (filter_testautomation a) (last cs) then SKIP
                    else rp (length (calls st2) - 1) (tc @ [''--filter'', last cs]) MAX_TEST_TIME e)"
    and r0: "cs = [] \<longrightarrow> (success st1 \<longrightarrow> r = SUCCESS)"
  proof (cases "cs = []")
    case True
    with au have "st2 = st1" by simp
    with run_unit_tests_last [OF u ne] True that show ?thesis by auto
  next
    case False
    from run_automation_cases_last [OF au False]
    obtain r where "test_result st2 = Some r" "ares (last cs) = Some r" by blast
    with run_automation_cases_last_result [OF au False] False that show ?thesis by auto
  qed
  let ?es' = "es\<lparr>run := st2\<lparr>success := accumulate (success st2) r\<rparr>,
                  TEST_RESULTS := (TEST_RESULTS es)(tag \<mapsto> ures),
                  TESTAUTOMATION_RESULTS := (TESTAUTOMATION_RESULTS es)(tag \<mapsto> ares)\<rparr>"
  have c: "compare_tag rp a e T es tag = Inr ?es'"
    using ta vo vd le tt tc ac u au r
    by (simp add: compare_tag_def run_testautomation_def)
  have f1: "success (run ?es') =
          (success (run es) \<and> (\<forall>n \<in> fst ` set ts. ures n = Some SUCCESS)
           \<and> (cs \<noteq> [] \<longrightarrow> ares (last cs) = Some SUCCESS))"
    using s1 s2 rl r0 by (auto simp: accumulate_iff)
  have f2: "success (run ?es') =
          (success st1
           \<and> (cs \<noteq> [] \<longrightarrow>
                 \<not> filtered_out (filter_testautomation a) (last cs)
                 \<and> rp (length (calls (run ?es')) - 1) (tc @ [''--filter'', last cs]) MAX_TEST_TIME e
                     = SUCCESS))"
    using s2 rr r0 by (auto simp: accumulate_iff split: if_splits)
  have f3: "calls (run ?es') =
              calls st1 @ map (\<lambda>c. \<lparr>cmd = tc @ [''--filter'', c], timeout = MAX_TEST_TIME, child_env = e\<rparr>)
                              (filter (\<lambda>c. \<not> filtered_out (filter_testautomation a) c) cs)"
    using c2 by simp
  from c f1 f2 f3 show ?thesis
    by (intro exI [of _ ?es'] exI [of _ ares]) simp
qed

lemma run_unit_tests_started_with:
  "run_unit_tests rp f e ts res st = (res', st') \<Longrightarrow> started_with e (calls st) \<Longrightarrow>
   started_with e (calls st')"
  using run_unit_tests_calls [of rp f e ts res st res' st']
  by (auto simp: started_with_def)

lemma run_automation_cases_started_with:
  "run_automation_cases rp f e tc cs res st = (res', st') \<Longrightarrow> started_with e (calls st) \<Longrightarrow>
   started_with e (calls st')"
  using run_automation_cases_calls [of rp f e tc cs res st res' st']
  by (auto simp: started_with_def)

lemma run_testautomation_started_with:
  assumes "started_with e (calls st)"
  shows "case run_testautomation rp a e ts tcs st tag of
           Inl (err, st') \<Rightarrow> started_with e (calls st')
         | Inr (res, st') \<Rightarrow> started_with e (calls st')"
proof -
  have "\<And>tc cs res st1. run_automation_cases rp (filter_testautomation a) e tc cs Map.empty st = (res, st1)
          \<Longrightarrow> started_with e (calls st1)"
    using run_automation_cases_started_with assms by blast
  then show ?thesis
    using assms
    by (auto simp: run_testautomation_def split: option.splits prod.splits)
qed

lemma compare_tag_started_with:
  assumes inv: "started_with e (calls (run es))"
  shows "case compare_tag rp a e T es tag of
           Inl (err, es') \<Rightarrow> started_with e (calls (run es'))
         | Inr es' \<Rightarrow> started_with e (calls (run es'))"
proof (cases "TAG_VERSION T tag")
  case None
  with inv show ?thesis by (simp add: compare_tag_def)
next
  case vo: (Some v)
  show ?thesis
  proof (cases "TAG_VERSION T (dut_tag a)")
    case None
    with vo inv show ?thesis by (simp add: compare_tag_def)
  next
    case vd: (Some v_dut)
    show ?thesis
    proof (cases "version_le v v_dut")
      case False
      with vo vd inv show ?thesis by (simp add: compare_tag_def)
    next
      case le: True
      show ?thesis
      proof (cases "TAG_TESTS T tag")
        case None
        with vo vd le inv show ?thesis by (simp add: compare_tag_def)
      next
        case tt: (Some ts)
        obtain ures st1 where u:
          "run_unit_tests rp (filter_tests a) e ts Map.empty (run es) = (ures, st1)"
          by (cases "run_unit_tests rp (filter_tests a) e ts Map.empty (run es)")
        have i1: "started_with e (calls st1)"
          using run_unit_tests_started_with [OF u inv] .
        note ta = run_testautomation_started_with
                    [OF i1, of rp a ts "TAG_AUTOMATION_CASES T tag" tag]
        show ?thesis
        proof (cases "run_testautomation rp a e ts (TAG_AUTOMATION_CASES T tag) st1 tag")
          case (Inl x)
          obtain err st2 where x: "x = (err, st2)" by (cases x)
          from ta Inl x have "started_with e (calls st2)" by simp
          with vo vd le tt u Inl x show ?thesis by (simp add: compare_tag_def)
        next
          case (Inr y)
          obtain ares st2 where y: "y = (ares, st2)" by (cases y)
          from ta Inr y have "started_with e (calls st2)" by simp
          with vo vd le tt u Inr y show ?thesis by (simp add: compare_tag_def)
        qed
      qed
    qed
  qed
qed

lemma compare_started_with:
  "started_with e (calls (run es)) \<Longrightarrow>
   (case compare rp a e T es tags of
      Inl (err, es') \<Rightarrow> started_with e (calls (run es'))
    | Inr es' \<Rightarrow> started_with e (calls (run es')))"
proof (induction tags arbitrary: es)
  case Nil
  then show ?case by simp
next
  case (Cons tag tags)
  note ct = compare_tag_started_with [OF Cons.prems, of rp a T tag]
  show ?case
  proof (cases "compare_tag rp a e T es tag")
    case (Inl x)
    with ct show ?thesis by simp
  next
    case (Inr es1)
    with ct have "started_with e (calls (run es1))" by simp
    from Cons.IH [OF this] Inr show ?thesis by simp
  qed
qed

subsection \<open>A run in automation mode\<close>

lemma example_tables_eval:
  "TAG_VERSION example_tables ''v1'' = Some (3, 1, 0)"
  "TAG_VERSION example_tables ''v2'' = Some (3, 2, 0)"
  "TAG_TESTS example_tables ''v1'' = Some [(''testautomation'', [''/opt/testautomation''])]"
  "TAG_AUTOMATION_CASES example_tables ''v1'' = Some [''audio_a'', ''video_b'']"
  by (simp_all add: example_tables_def pipeline_def pipeline_tag_def example_args_def
        example_disk_def empty_tables_def Let_def)

text \<open>
  Two runs of the tag \<^verbatim>\<open>v1\<close>, computed. The children are the unit test
  \<^verbatim>\<open>testautomation\<close> and the cases \<^verbatim>\<open>audio_a\<close> and \<^verbatim>\<open>video_b\<close>, numbered 0,
  1 and 2. When the first case fails the flag stays true; when the last case fails it
  becomes false.
\<close>

lemma example_run_evaluated:
  "\<exists>es'. compare_tag second_fails example_args example_environ
           example_tables initial_state ''v1'' = Inr es'
      \<and> map cmd (calls (run es')) =
            [''/opt/testautomation''] #
            [''/opt/testautomation'', ''--filter'', ''audio_a''] #
            [''/opt/testautomation'', ''--filter'', ''video_b''] # []
      \<and> map_option (\<lambda>r. (r ''audio_a'', r ''video_b'')) (TESTAUTOMATION_RESULTS es' ''v1'')
            = Some (Some FAILED, Some SUCCESS)"
  "\<exists>es'. compare_tag third_fails example_args example_environ
           example_tables initial_state ''v1'' = Inr es'
      \<and> map cmd (calls (run es')) =
            [''/opt/testautomation''] #
            [''/opt/testautomation'', ''--filter'', ''audio_a''] #
            [''/opt/testautomation'', ''--filter'', ''video_b''] # []
      \<and> map_option (\<lambda>r. (r ''audio_a'', r ''video_b'')) (TESTAUTOMATION_RESULTS es' ''v1'')
            = Some (Some SUCCESS, Some FAILED)"
  by (simp_all add: compare_tag_def example_tables_eval example_args_def run_testautomation_def
        initial_state_def spawn_def accumulate_iff)

theorem automation_flag_from_last_case_witness:
  "(\<exists>es'. compare_tag second_fails example_args example_environ
            example_tables initial_state ''v1'' = Inr es'
       \<and> map_option (\<lambda>r. (r ''audio_a'', r ''video_b'')) (TESTAUTOMATION_RESULTS es' ''v1'')
             = Some (Some FAILED, Some SUCCESS)
       \<and> length (calls (run es')) = 3
       \<and> success (run es') = True)
   \<and> (\<exists>es'. compare_tag third_fails example_args example_environ
            example_tables initial_state ''v1'' = Inr es'
       \<and> map_option (\<lambda>r. (r ''audio_a'', r ''video_b'')) (TESTAUTOMATION_RESULTS es' ''v1'')
             = Some (Some SUCCESS, Some FAILED)
       \<and> length (calls (run es')) = 3
       \<and> success (run es') = False)"
proof -
  let ?ts = "[(''testautomation'', [''/opt/testautomation''])]"
  let ?tc = "[''/opt/testautomation'']"
  let ?cs = "[''audio_a'', ''video_b'']"
  have ta: "testautomation example_args" by (simp add: example_args_def)
  have fa: "filter_testautomation example_args = None" by (simp add: example_args_def)
  have le: "version_le (3, 1, 0) (3, 2, 0)" by simp
  have vd: "TAG_VERSION example_tables (dut_tag example_args) = Some (3, 2, 0)"
    by (simp add: example_tables_eval example_args_def)
  have di: "distinct (map fst ?ts)" by simp
  have tc: "map_of ?ts ''testautomation'' = Some ?tc" by simp
  have run: "success (run es') = b \<and> length (calls (run es')) = 3"
    if c: "compare_tag rp example_args example_environ example_tables initial_state ''v1'' = Inr es'"
      and r0: "rp 0 ?tc MAX_TEST_TIME example_environ = SUCCESS"
      and r2: "(rp 2 (?tc @ [''--filter'', ''video_b'']) MAX_TEST_TIME example_environ = SUCCESS) = b"
    for rp es' b
  proof -
    let ?u = "run_unit_tests rp (filter_tests example_args) example_environ ?ts Map.empty
                (run initial_state)"
    have u: "?u = (fst ?u, snd ?u)" by simp
    have s1: "success (snd ?u) = True" and c1: "length (calls (snd ?u)) = 1"
      using r0 by (simp_all add: example_args_def initial_state_def spawn_def accumulate_iff)
    from automation_flag_from_last_case
           [OF ta example_tables_eval(1) vd le example_tables_eval(3) di tc example_tables_eval(4) u]
    obtain es2 ares where c2: "compare_tag rp example_args example_environ example_tables
                                 initial_state ''v1'' = Inr es2"
      and cl: "calls (run es2) =
                 calls (snd ?u) @ map (\<lambda>c. \<lparr>cmd = ?tc @ [''--filter'', c], timeout = MAX_TEST_TIME,
                                              child_env = example_environ\<rparr>)
                                      (filter (\<lambda>c. \<not> filtered_out (filter_testautomation example_args) c) ?cs)"
      and fl: "success (run es2) =
                 (success (snd ?u)
                  \<and> (?cs \<noteq> [] \<longrightarrow>
                        \<not> filtered_out (filter_testautomation example_args) (last ?cs)
                        \<and> rp (length (calls (run es2)) - 1) (?tc @ [''--filter'', last ?cs])
                              MAX_TEST_TIME example_environ = SUCCESS))"
      by blast
    from c c2 have e: "es2 = es'" by simp
    have len: "length (calls (run es')) = 3"
      using cl c1 by (simp add: e fa)
    have "success (run es') = b"
      using fl s1 r2 len by (simp add: e fa)
    with len show ?thesis by simp
  qed
  from example_run_evaluated(1) obtain e1 where
    c1: "compare_tag second_fails example_args example_environ example_tables initial_state ''v1'' = Inr e1"
    and m1: "map_option (\<lambda>r. (r ''audio_a'', r ''video_b'')) (TESTAUTOMATION_RESULTS e1 ''v1'')
               = Some (Some FAILED, Some SUCCESS)"
    by blast
  from example_run_evaluated(2) obtain e2 where
    c2: "compare_tag third_fails example_args example_environ example_tables initial_state ''v1'' = Inr e2"
    and m2: "map_option (\<lambda>r. (r ''audio_a'', r ''video_b'')) (TESTAUTOMATION_RESULTS e2 ''v1'')
               = Some (Some SUCCESS, Some FAILED)"
    by blast
  have "success (run e1) = True \<and> length (calls (run e1)) = 3"
    by (rule run [OF c1]) simp_all
  moreover have "success (run e2) = False \<and> length (calls (run e2)) = 3"
    by (rule run [OF c2]) simp_all
  ultimately show ?thesis
    using c1 m1 c2 m2 by blast
qed

subsection \<open>The child environment\<close>

lemma effective_args_fields:
  "dut_tag (effective_args a) = dut_tag a"
  "other_tags (effective_args a) = other_tags a"
  "filter_tests (effective_args a) = filter_tests a"
  "filter_testautomation (effective_args a) = filter_testautomation a"
  by (simp_all add: effective_args_def)

lemma pipeline_pref:
  "TAG_PREF (pipeline cwd a disk) (dut_tag a) = Some (pdiv (pdiv cwd (dut_tag a)) ''prefix'')"
  by (simp add: pipeline_def pipeline_tag_def Let_def)

lemma build_child_environ_parent:
  assumes "environ < length h"
  shows "case build_child_environ h environ pathsep T a of
           Inl (err, h1) \<Rightarrow> h1 ! environ = h ! environ
         | Inr (h1, ce) \<Rightarrow> h1 ! environ = h ! environ"
  using assms
  by (auto simp: build_child_environ_def dict_copy_def dict_set_def dict_get_def nth_append
           split: option.splits)

lemma build_child_environ_child:
  assumes "environ < length h"
    and "TAG_PREF T (dut_tag a) = Some pref"
    and "build_child_environ h environ pathsep T a = Inr (h1, ce)"
  shows "\<exists>p. (h ! environ) ''PATH'' = Some p
           \<and> h1 ! ce = (h ! environ)
                (''DYLD_LIBRARY_PATH'' \<mapsto> str_path (pdiv pref ''lib''),
                 ''LD_LIBRARY_PATH'' \<mapsto> str_path (pdiv pref ''lib''),
                 ''PATH'' \<mapsto> str_path (pdiv pref ''bin'') @ pathsep @ p)"
  using assms
  by (auto simp: build_child_environ_def dict_copy_def dict_set_def dict_get_def nth_append
           split: option.splits)

lemma started_with_Nil: "started_with e []"
  by (simp add: started_with_def)

lemma main_started_with:
  assumes "build_child_environ h environ pathsep (pipeline cwd (effective_args a) disk) (effective_args a)
             = Inr (h1, ce)"
  shows "started_with (h1 ! ce) (started (main rp a cwd disk pathsep h environ))"
proof -
  let ?a = "effective_args a"
  let ?T = "pipeline cwd ?a disk"
  have i0: "started_with (h1 ! ce) (calls (run initial_state))"
    by (simp add: initial_state_def started_with_Nil)
  note c = compare_started_with [OF i0, of rp ?a ?T "other_tags ?a"]
  show ?thesis
  proof (cases "compare rp ?a (h1 ! ce) ?T initial_state (other_tags ?a)")
    case (Inl x)
    obtain err es where x: "x = (err, es)" by (cases x)
    from c Inl x assms show ?thesis by (simp add: main_def Let_def)
  next
    case (Inr es)
    from c Inr assms show ?thesis by (simp add: main_def Let_def split: prod.splits)
  qed
qed

lemma main_started_none:
  assumes "build_child_environ h environ pathsep (pipeline cwd (effective_args a) disk) (effective_args a)
             = Inl x"
  shows "started (main rp a cwd disk pathsep h environ) = []"
  using assms by (cases x) (simp add: main_def Let_def)

lemma main_final_heap:
  assumes "environ < length h"
  shows "final_heap (main rp a cwd disk pathsep h environ) ! environ = h ! environ"
proof -
  let ?a = "effective_args a"
  let ?T = "pipeline cwd ?a disk"
  note p = build_child_environ_parent [OF assms, of pathsep ?T ?a]
  show ?thesis
  proof (cases "build_child_environ h environ pathsep ?T ?a")
    case (Inl x)
    with p show ?thesis by (cases x) (simp add: main_def Let_def)
  next
    case (Inr y)
    obtain h1 ce where y: "y = (h1, ce)" by (cases y)
    with p Inr have "h1 ! environ = h ! environ" by simp
    with Inr y show ?thesis
      by (simp add: main_def Let_def split: sum.splits prod.splits)
  qed
qed

text \<open>
  C7: every child that a run starts gets an environment in which
  \<^verbatim>\<open>DYLD_LIBRARY_PATH\<close> and \<^verbatim>\<open>LD_LIBRARY_PATH\<close> are the \<^verbatim>\<open>lib\<close> directory
  under the install prefix of the tag under test, \<^verbatim>\<open>PATH\<close> is that prefix's
  \<^verbatim>\<open>bin\<close> directory, the path separator and the parent's \<^verbatim>\<open>PATH\<close>, and every
  other variable is as in the parent; and the dictionary \<^verbatim>\<open>os.environ\<close> of the
  parent is the same after the run as before it. The install prefix is
  \<^verbatim>\<open>cwd / dut_tag / "prefix"\<close> as \<^verbatim>\<open>pathlib\<close> joins it, for every working
  directory and every tag name.
\<close>

theorem child_environment:
  assumes "environ < length h"
  shows "final_heap (main rp a cwd disk pathsep h environ) ! environ = h ! environ
    \<and> (\<forall>c \<in> set (started (main rp a cwd disk pathsep h environ)).
          child_env c ''DYLD_LIBRARY_PATH'' = Some (str_path (pdiv (pdiv (pdiv cwd (dut_tag a)) ''prefix'') ''lib''))
        \<and> child_env c ''LD_LIBRARY_PATH'' = Some (str_path (pdiv (pdiv (pdiv cwd (dut_tag a)) ''prefix'') ''lib''))
        \<and> (\<exists>p. (h ! environ) ''PATH'' = Some p
              \<and> child_env c ''PATH'' = Some (str_path (pdiv (pdiv (pdiv cwd (dut_tag a)) ''prefix'') ''bin'') @ pathsep @ p))
        \<and> (\<forall>k. k \<notin> {''DYLD_LIBRARY_PATH'', ''LD_LIBRARY_PATH'', ''PATH''}
              \<longrightarrow> child_env c k = (h ! environ) k))"
proof -
  let ?a = "effective_args a"
  let ?T = "pipeline cwd ?a disk"
  let ?pref = "pdiv (pdiv cwd (dut_tag a)) ''prefix''"
  have pr: "TAG_PREF ?T (dut_tag ?a) = Some ?pref"
    using pipeline_pref [of cwd ?a disk] by (simp add: effective_args_fields)
  show ?thesis
  proof (cases "build_child_environ h environ pathsep ?T ?a")
    case (Inl x)
    from main_started_none [OF Inl] main_final_heap [OF assms] show ?thesis by simp
  next
    case (Inr y)
    obtain h1 ce where y: "y = (h1, ce)" by (cases y)
    from build_child_environ_child [OF assms pr Inr [unfolded y]]
    obtain p where p: "(h ! environ) ''PATH'' = Some p"
      and e: "h1 ! ce = (h ! environ)
                (''DYLD_LIBRARY_PATH'' \<mapsto> str_path (pdiv ?pref ''lib''),
                 ''LD_LIBRARY_PATH'' \<mapsto> str_path (pdiv ?pref ''lib''),
                 ''PATH'' \<mapsto> str_path (pdiv ?pref ''bin'') @ pathsep @ p)"
      by blast
    have "\<And>c. c \<in> set (started (main rp a cwd disk pathsep h environ)) \<Longrightarrow> child_env c = h1 ! ce"
      using main_started_with [OF Inr [unfolded y]] by (simp add: started_with_def)
    with p e main_final_heap [OF assms] show ?thesis by simp
  qed
qed

text \<open>The equations by which \<open>main\<close> is computed on a concrete input.\<close>

lemmas main_eval =
  main_def effective_args_def pipeline_def pipeline_tag_def empty_tables_def set_update_def
  build_child_environ_def dict_copy_def dict_set_def dict_get_def
  compare_tag_def run_testautomation_def spawn_def accumulate_iff initial_state_def
  report_def print_table_def exit_code_def str_in_eval Let_def

lemma example_main_started:
  "map cmd (started (main all_pass example_args work_dir example_disk '':''
      [example_environ] 0))
   = [''/opt/testautomation''] #
     [''/opt/testautomation'', ''--filter'', ''audio_a''] #
     [''/opt/testautomation'', ''--filter'', ''video_b''] # []"
  by (simp add: main_eval example_args_def example_disk_def example_environ_def)

lemma example_main_status:
  "status (main all_pass example_args work_dir example_disk '':''
      [example_environ] 0) = Inr 0"
  by (simp add: main_eval example_args_def example_disk_def example_environ_def)

theorem child_environment_witness:
  "(0::nat) < length [example_environ]
   \<and> started (main all_pass example_args work_dir example_disk '':''
        [example_environ] 0) \<noteq> []
   \<and> final_heap (main all_pass example_args work_dir example_disk '':''
        [example_environ] 0) ! 0 = example_environ
   \<and> list_all
        (\<lambda>c. child_env c ''DYLD_LIBRARY_PATH'' = Some ''work/v2/prefix/lib''
            \<and> child_env c ''LD_LIBRARY_PATH'' = Some ''work/v2/prefix/lib''
            \<and> child_env c ''PATH'' = Some ''work/v2/prefix/bin:/usr/bin''
            \<and> child_env c ''HOME'' = Some ''/root'')
        (started (main all_pass example_args work_dir example_disk '':''
           [example_environ] 0))"
proof -
  let ?m = "main all_pass example_args work_dir example_disk '':'' [example_environ] 0"
  have h: "(0::nat) < length [example_environ]" by simp
  have ne: "started ?m \<noteq> []"
    using example_main_started by auto
  have d: "dut_tag example_args = ''v2''" by (simp add: example_args_def)
  have p: "example_environ ''PATH'' = Some ''/usr/bin''"
    and ho: "example_environ ''HOME'' = Some ''/root''"
    by (simp_all add: example_environ_def)
  have pl: "str_path (pdiv (pdiv (pdiv work_dir ''v2'') ''prefix'') ''lib'') = ''work/v2/prefix/lib''"
    and pb: "str_path (pdiv (pdiv (pdiv work_dir ''v2'') ''prefix'') ''bin'') = ''work/v2/prefix/bin''"
    by code_simp+
  from child_environment [OF h, of all_pass example_args work_dir example_disk "'':''"]
  show ?thesis
    using h ne by (simp add: d p ho pl pb list_all_iff)
qed

text \<open>
  The paths at other tag names, as \<^verbatim>\<open>pathlib\<close> joins them: a trailing slash is
  dropped, a tag with a slash gives two parts, and an absolute tag replaces the working
  directory. For a plain name the join appends one part.
\<close>

lemma child_paths_for_other_tags:
  "str_path (pdiv (pdiv (pdiv work_dir ''v2/'') ''prefix'') ''lib'') = ''work/v2/prefix/lib''"
  "str_path (pdiv (pdiv (pdiv work_dir ''release/3.2'') ''prefix'') ''lib'') = ''work/release/3.2/prefix/lib''"
  "str_path (pdiv (pdiv (pdiv work_dir ''/tmp/x'') ''prefix'') ''lib'') = ''/tmp/x/prefix/lib''"
  "str_path (pdiv (pdiv (pdiv (parse_part ''/'') ''v2'') ''prefix'') ''bin'') = ''/v2/prefix/bin''"
  by code_simp+

lemma split_from_plain: "CHR ''/'' \<notin> set s \<Longrightarrow> split_from cur s = [cur @ s]"
  by (induction s arbitrary: cur) auto

lemma pdiv_plain:
  assumes "tag \<noteq> []" and "tag \<noteq> ''.''" and "CHR ''/'' \<notin> set tag"
  shows "pdiv p tag = (fst p, snd p @ [tag])"
proof -
  have "\<not> prefix ''/'' tag"
    using assms(3) by (cases tag) auto
  then have "parse_part tag = ([], [tag])"
    using assms by (simp add: parse_part_def splitroot_def split_from_plain)
  then show ?thesis by (simp add: pdiv_def)
qed

subsection \<open>A tag newer than the tag under test\<close>

text \<open>
  What lines 176 to 179 do for a tag whose version is not below or equal to that of the
  tag under test: the flag becomes false and nothing else changes. No child is
  started, and the tag gets no entry in \<^verbatim>\<open>TEST_RESULTS\<close> or
  \<^verbatim>\<open>TESTAUTOMATION_RESULTS\<close>.
\<close>

lemma compare_tag_newer:
  "TAG_VERSION T tag = Some v \<Longrightarrow> TAG_VERSION T (dut_tag a) = Some v_dut \<Longrightarrow>
   \<not> version_le v v_dut \<Longrightarrow>
   compare_tag rp a e T es tag = Inr (es\<lparr>run := (run es)\<lparr>success := False\<rparr>\<rparr>)"
  by (simp add: compare_tag_def)

text \<open>
  C2 at this input: the version check of \<^verbatim>\<open>v3\<close> fails, so line 179 continues
  with the next tag before line 182 has entered \<^verbatim>\<open>v3\<close> into
  \<^verbatim>\<open>TEST_RESULTS\<close>. The run goes on: the test of \<^verbatim>\<open>v1\<close> is executed, and it is
  the only child started. The report then prints its heading lines and, at the first
  row, line 238 evaluates \<^verbatim>\<open>TEST_RESULTS['v3']\<close>, which raises
  \<^verbatim>\<open>KeyError\<close>: no row is printed and \<^verbatim>\<open>main\<close> does not return.
\<close>

theorem newer_tag_report_raises:
  "status (main all_pass newer_args work_dir newer_disk '':'' [example_environ] 0)
     = Inl (KeyError ''v3'')
   \<and> map cmd (started (main all_pass newer_args work_dir newer_disk '':'' [example_environ] 0))
     = [''/opt/testver''] # []
   \<and> printed (main all_pass newer_args work_dir newer_disk '':'' [example_environ] 0)
     = [Blank, Heading ''Test results:'', Columns [''v3'', ''v1''],
        Versions [(3, 3, 0), (3, 1, 0)], Rule]"
  by (simp add: main_eval newer_args_def newer_disk_def example_environ_def)

text \<open>
  The same happens in every run without automation mode that has a test name to
  report: if one of the other tags has no entry in \<^verbatim>\<open>TEST_RESULTS\<close>, the first row
  of the table raises \<^verbatim>\<open>KeyError\<close>.
\<close>

lemma cells_unregistered_tag:
  "tag \<in> set tags \<Longrightarrow> R tag = None \<Longrightarrow> \<exists>t. cells R tags name = Inl (KeyError t)"
proof (induction tags)
  case Nil
  then show ?case by simp
next
  case (Cons x tags)
  show ?case
  proof (cases "R x")
    case None
    then show ?thesis by simp
  next
    case (Some res)
    with Cons.prems have "tag \<in> set tags" by auto
    from Cons.IH [OF this Cons.prems(2)] Some show ?thesis by auto
  qed
qed

lemma report_unregistered_tag:
  assumes "\<not> testautomation a"
    and "all_test_names T \<noteq> []"
    and "versions_of T (other_tags a) = Inr vs"
    and "tag \<in> set (other_tags a)"
    and "TEST_RESULTS es tag = None"
  shows "\<exists>t. report a T es =
           ([Blank, Heading ''Test results:'', Columns (other_tags a), Versions vs, Rule],
            Some (KeyError t))"
proof -
  obtain name names where n: "all_test_names T = name # names"
    using assms(2) by (cases "all_test_names T") auto
  from cells_unregistered_tag [of tag "other_tags a" "TEST_RESULTS es" name] assms(4,5)
  obtain t where "cells (TEST_RESULTS es) (other_tags a) name = Inl (KeyError t)" by blast
  with assms(1,3) n show ?thesis
    by (simp add: report_def print_table_def)
qed

subsection \<open>The automation-case filter\<close>

lemma set_set_update: "set (set_update s xs) = set s \<union> set xs"
  by (auto simp: set_update_def)

lemma pipeline_tag_cases:
  "TAG_AUTOMATION_CASES (pipeline_tag cwd a disk T tag) =
     (TAG_AUTOMATION_CASES T)(tag \<mapsto> keep_cases (filter_testautomation a) (d_cases (disk tag)))"
  by (simp add: pipeline_tag_def Let_def)

lemma pipeline_tag_all_cases:
  "set (all_automation_cases (pipeline_tag cwd a disk T tag)) =
     set (all_automation_cases T) \<union> set (keep_cases (filter_testautomation a) (d_cases (disk tag)))"
  by (simp add: pipeline_tag_def Let_def set_set_update)

lemma foldl_pipeline_cases:
  "TAG_AUTOMATION_CASES (foldl (pipeline_tag cwd a disk) T tags) tag =
     (if tag \<in> set tags then Some (keep_cases (filter_testautomation a) (d_cases (disk tag)))
      else TAG_AUTOMATION_CASES T tag)"
  by (induction tags arbitrary: T) (simp_all add: pipeline_tag_cases)

lemma foldl_pipeline_all_cases:
  "set (all_automation_cases (foldl (pipeline_tag cwd a disk) T tags)) =
     set (all_automation_cases T)
     \<union> (\<Union>tag \<in> set tags. set (keep_cases (filter_testautomation a) (d_cases (disk tag))))"
  by (induction tags arbitrary: T) (auto simp: pipeline_tag_all_cases)

lemma keep_cases_filter:
  "f \<noteq> [] \<Longrightarrow> keep_cases (Some f) cs = filter (\<lambda>t. str_in f t) cs"
  by simp

lemma print_rows_names:
  "Row n r \<in> set (fst (print_rows R tags names)) \<Longrightarrow> n \<in> set names"
  by (induction names) (auto split: sum.splits prod.splits)

lemma run_automation_cases_results:
  "run_automation_cases rp f e tc cs res st = (res', st') \<Longrightarrow> c \<in> set cs \<Longrightarrow>
   (filtered_out f c \<and> res' c = Some SKIP)
   \<or> (\<not> filtered_out f c \<and> (\<exists>n. res' c = Some (rp n (tc @ [''--filter'', c]) MAX_TEST_TIME e)))"
proof (induction cs arbitrary: res st)
  case Nil
  then show ?case by simp
next
  case (Cons x cs)
  obtain r st1 where step:
    "(if filtered_out f x then (SKIP, st) else spawn rp (tc @ [''--filter'', x]) MAX_TEST_TIME e st) = (r, st1)"
    by (cases "if filtered_out f x then (SKIP, st) else spawn rp (tc @ [''--filter'', x]) MAX_TEST_TIME e st")
  have rec: "run_automation_cases rp f e tc cs (res(x \<mapsto> r)) (st1\<lparr>test_result := Some r\<rparr>) = (res', st')"
    using Cons.prems(1) step by simp
  show ?case
  proof (cases "c \<in> set cs")
    case True
    from Cons.IH [OF rec True] show ?thesis .
  next
    case False
    with Cons.prems(2) have cx: "c = x" by simp
    have "res' c = Some r"
      using run_automation_cases_frame [OF rec False] cx by simp
    with step cx show ?thesis
      by (auto simp: spawn_def split: if_splits)
  qed
qed

text \<open>
  C10, as the claim states it, does not hold in its last part. With the filter
  \<^verbatim>\<open>audio\<close>, the case \<^verbatim>\<open>video_b\<close> of the tag \<^verbatim>\<open>v1\<close> is filtered out, and the
  report has no row for it: the rows of the automation table are the names in
  \<^verbatim>\<open>all_automation_cases\<close>, which line 160 fills after the filter of line 158.
\<close>

theorem filtered_case_has_no_row:
  "''video_b'' \<in> set (d_cases (example_disk ''v1''))
   \<and> \<not> str_in ''audio'' ''video_b''
   \<and> status (main all_pass filtered_args work_dir example_disk '':'' [example_environ] 0)
       = Inr 0
   \<and> printed (main all_pass filtered_args work_dir example_disk '':'' [example_environ] 0)
       = [Blank, Heading ''Testautomation results:'', Columns [''v1''], Versions [(3, 1, 0)], Rule,
          Row ''audio_a'' [SUCCESS],
          Blank, Heading ''Test results:'', Columns [''v1''], Versions [(3, 1, 0)], Rule,
          Row ''testautomation'' [SUCCESS]]"
  by (simp add: main_eval filtered_args_def example_disk_def example_environ_def)

text \<open>
  C10, amended: when the automation-case filter is configured (a non-empty string),
  the case list that the pipeline stores for a tag holds exactly the discovered cases
  that contain the filter. On such a list the execution loop starts one child per case
  and skips none, so that, the runner returning only \<^verbatim>\<open>SUCCESS\<close>, \<^verbatim>\<open>FAILED\<close> or
  \<^verbatim>\<open>TIMEOUT\<close>, every case of the list gets a result and none is recorded as
  \<^verbatim>\<open>SKIP\<close>. A filtered-out case is not in \<^verbatim>\<open>all_automation_cases\<close> either, and
  the automation table of the report has no row for it.
\<close>

theorem filtered_cases_not_run_not_reported:
  assumes flt: "filter_testautomation a = Some f" "f \<noteq> []"
    and rng: "runner_range rp"
    and tag: "tag \<in> set (other_tags a @ [dut_tag a])"
  shows "\<exists>cs. TAG_AUTOMATION_CASES (pipeline cwd a disk) tag = Some cs
           \<and> cs = filter (\<lambda>t. str_in f t) (d_cases (disk tag))
           \<and> (\<forall>res st res' st'.
                 run_automation_cases rp (filter_testautomation a) e tc cs res st = (res', st') \<longrightarrow>
                   calls st' = calls st @ map (\<lambda>c. \<lparr>cmd = tc @ [''--filter'', c],
                                                     timeout = MAX_TEST_TIME, child_env = e\<rparr>) cs
                   \<and> (\<forall>c \<in> set cs. res' c \<in> {Some SUCCESS, Some FAILED, Some TIMEOUT}))
           \<and> (\<forall>c. \<not> str_in f c \<longrightarrow> c \<notin> set (all_automation_cases (pipeline cwd a disk)))
           \<and> (\<forall>R tags c r. \<not> str_in f c \<longrightarrow>
                 Row c r \<notin> set (fst (print_rows R tags (all_automation_cases (pipeline cwd a disk)))))"
proof -
  let ?cs = "filter (\<lambda>t. str_in f t) (d_cases (disk tag))"
  have stored: "TAG_AUTOMATION_CASES (pipeline cwd a disk) tag = Some ?cs"
    using tag flt by (simp add: pipeline_def foldl_pipeline_cases del: foldl_append)
  have kept: "\<And>c. c \<in> set ?cs \<Longrightarrow> \<not> filtered_out (filter_testautomation a) c"
    using flt by simp
  have loop: "calls st' = calls st @ map (\<lambda>c. \<lparr>cmd = tc @ [''--filter'', c],
                                                  timeout = MAX_TEST_TIME, child_env = e\<rparr>) ?cs
              \<and> (\<forall>c \<in> set ?cs. res' c \<in> {Some SUCCESS, Some FAILED, Some TIMEOUT})"
    if run: "run_automation_cases rp (filter_testautomation a) e tc ?cs res st = (res', st')"
    for res st res' st'
  proof -
    have "filter (\<lambda>c. \<not> filtered_out (filter_testautomation a) c) ?cs = ?cs"
      using flt by (simp cong: filter_cong)
    with run_automation_cases_calls [OF run]
    have c: "calls st' = calls st @ map (\<lambda>c. \<lparr>cmd = tc @ [''--filter'', c],
                                                  timeout = MAX_TEST_TIME, child_env = e\<rparr>) ?cs"
      by simp
    have "res' c \<in> {Some SUCCESS, Some FAILED, Some TIMEOUT}" if "c \<in> set ?cs" for c
    proof -
      from run_automation_cases_results [OF run that] kept [OF that]
      obtain n where "res' c = Some (rp n (tc @ [''--filter'', c]) MAX_TEST_TIME e)" by blast
      with rng show ?thesis by (simp add: runner_range_def)
    qed
    with c show ?thesis by blast
  qed
  have all: "c \<notin> set (all_automation_cases (pipeline cwd a disk))" if "\<not> str_in f c" for c
    using that flt
    by (auto simp: pipeline_def foldl_pipeline_all_cases empty_tables_def simp del: foldl_append)
  have rows: "Row c r \<notin> set (fst (print_rows R tags (all_automation_cases (pipeline cwd a disk))))"
    if "\<not> str_in f c" for R tags c r
    using all [OF that] print_rows_names by blast
  from stored loop all rows show ?thesis by blast
qed

theorem filtered_cases_not_run_not_reported_witness:
  "filter_testautomation filtered_args = Some ''audio''
   \<and> ''audio'' \<noteq> []
   \<and> runner_range all_pass
   \<and> ''v1'' \<in> set (other_tags filtered_args @ [dut_tag filtered_args])
   \<and> TAG_AUTOMATION_CASES (pipeline work_dir filtered_args example_disk) ''v1'' = Some [''audio_a'']
   \<and> ''video_b'' \<notin> set (all_automation_cases (pipeline work_dir filtered_args example_disk))
   \<and> (\<forall>R tags r. Row ''video_b'' r \<notin>
          set (fst (print_rows R tags (all_automation_cases (pipeline work_dir filtered_args example_disk)))))"
proof -
  have f: "filter_testautomation filtered_args = Some ''audio''"
    by (simp add: filtered_args_def)
  have ne: "''audio'' \<noteq> []" by simp
  have rng: "runner_range all_pass" by (simp add: runner_range_def)
  have tag: "''v1'' \<in> set (other_tags filtered_args @ [dut_tag filtered_args])"
    by (simp add: filtered_args_def)
  have cs: "filter (\<lambda>t. str_in ''audio'' t) (d_cases (example_disk ''v1'')) = [''audio_a'']"
    by (simp add: example_disk_def str_in_eval)
  have v: "\<not> str_in ''audio'' ''video_b''" by (simp add: str_in_eval)
  from filtered_cases_not_run_not_reported
         [OF f ne rng tag, of work_dir example_disk Map.empty "[''/opt/testautomation'']"]
  show ?thesis
    using f ne rng tag cs v by metis
qed

subsection \<open>The process runner\<close>

lemma run_process_with_timeout_range:
  "run_process_with_timeout c t e w = Some (r, s) \<Longrightarrow> r \<in> {SUCCESS, FAILED, TIMEOUT}"
  by (auto simp: run_process_with_timeout_def classify_def
           split: list.splits option.splits prod.splits if_splits)





text \<open>
  Between the two polls the child may end. A child that is seen running, after which the
  clock is past the deadline, and that has exited by the poll of line 44 is not killed:
  the result follows its exit status.
\<close>

lemma late_exit_is_classified:
  "run_process_with_timeout c 60 e \<lparr>pending = [None, Some rc], clock = [0, 70]\<rparr>
     = Some (classify rc, Exited rc)"
  by (simp add: run_process_with_timeout_def)

text \<open>
  C3 at a concrete child. The claim has every test run under a time limit of 60
  seconds. Every child is started with the limit \<^verbatim>\<open>MAX_TEST_TIME\<close>, which is
  60000, and line 41 adds it to a reading of \<^verbatim>\<open>time.time()\<close>, which counts
  seconds. A child that is seen running 61 seconds and again one hour after its start,
  and then exits with status 0, is therefore not killed and is reported as
  \<^verbatim>\<open>SUCCESS\<close>; under a limit of 60 seconds the same child is killed at the first
  reading and reported as \<^verbatim>\<open>TIMEOUT\<close>.
\<close>

theorem max_test_time_exceeds_sixty_seconds:
  "run_process_with_timeout [''/opt/testver''] MAX_TEST_TIME Map.empty
     \<lparr>pending = [None, None, Some 0], clock = [0, 61, 3600]\<rparr> = Some (SUCCESS, Exited 0)
   \<and> run_process_with_timeout [''/opt/testver''] 60 Map.empty
     \<lparr>pending = [None, None, Some 0], clock = [0, 61, 3600]\<rparr> = Some (TIMEOUT, Killed)"
  by (simp add: run_process_with_timeout_def classify_def MAX_TEST_TIME_def)

text \<open>Every child that a run starts is given the time limit \<^verbatim>\<open>MAX_TEST_TIME\<close>.\<close>

lemma main_timeouts:
  "c \<in> set (started (main rp a cwd disk pathsep h environ)) \<Longrightarrow> timeout c = MAX_TEST_TIME"
proof (cases "build_child_environ h environ pathsep (pipeline cwd (effective_args a) disk) (effective_args a)")
  case (Inl x)
  assume "c \<in> set (started (main rp a cwd disk pathsep h environ))"
  with main_started_none [OF Inl] show ?thesis by simp
next
  case (Inr y)
  assume c: "c \<in> set (started (main rp a cwd disk pathsep h environ))"
  obtain h1 ce where y: "y = (h1, ce)" by (cases y)
  from main_started_with [OF Inr [unfolded y]] c show ?thesis
    by (simp add: started_with_def)
qed

subsection \<open>Test discovery\<close>


text \<open>
  Single quotes and a backslash keep a space inside an argument as well, and the
  entries of the directory are discovered in order.
\<close>

lemma get_unit_tests_two_descriptors:
  "get_unit_tests
     [(''true.test'', Some descriptor_text),
      (''testver.test'', Some (''[Test]'' @ [CHR 0x0A] @ ''Exec = /opt/testver '' @ [CHR 0x27]
          @ ''c d'' @ [CHR 0x27] @ '' e'' @ [CHR 0x5C] @ '' f'' @ [CHR 0x0A]))]
     = Inr [(''true'', [''/bin/true'', ''--flag'', ''a b'']),
            (''testver'', [''/opt/testver'', ''c d'', ''e f''])]"
  by code_simp

text \<open>
  A directory entry that is no descriptor makes discovery raise: without a section
  \<^verbatim>\<open>Test\<close> the look-up of line 73 raises \<^verbatim>\<open>KeyError\<close>, and a file that starts
  with \<^verbatim>\<open>{Test}\<close> in braces has no section header.
\<close>

lemma get_unit_tests_not_a_descriptor:
  "get_unit_tests [(''subdir'', None)] = Inl (KeyError ''Test'')"
  "get_unit_tests [(''notes.txt'', Some (''# nothing here'' @ [CHR 0x0A]))] = Inl (KeyError ''Test'')"
  "get_unit_tests [(''true.test'', Some (''{Test}'' @ [CHR 0x0A] @ ''Exec=/bin/true'' @ [CHR 0x0A]))]
     = Inl MissingSectionHeaderError"
  by code_simp+


text \<open>
  The declaration is also found without \<^verbatim>\<open>const\<close> and without spaces; a name with
  a character outside letters, digits, dot, underscore and hyphen is not extracted; and
  a file whose name does not match \<^verbatim>\<open>testautomation*.c\<close> is not read.
\<close>

lemma get_automation_cases_variants:
  "get_automation_cases
     [(''testautomation_a.c'', ''static SDLTest_TestCaseReference a={b,'' @ [CHR 0x22] @ ''c_d''
         @ [CHR 0x22] @ '' ,x};'')] = [''c_d'']"
  "get_automation_cases
     [(''testautomation_a.c'', ''static const SDLTest_TestCaseReference fooRef = {foo, ''
         @ [CHR 0x22] @ ''foo bar'' @ [CHR 0x22] @ '', ...};'')] = []"
  "get_automation_cases [(''testver.c'', reference_source)] = []"
  by code_simp+

end
